theory Spec2Isabelle
  imports Main "HOL-Library.Sublist"
begin

section \<open>Characters and the C++ library functions the parser calls\<close>

text \<open>
  The parser of \<^verbatim>\<open>iparser.cpp\<close> reads a TSPLIB-style file through a
  \<^verbatim>\<open>std::ifstream\<close>. Strings are byte lists; the character classes are those of the
  C locale.
\<close>

definition WHITESPACE :: string where
  "WHITESPACE = [CHR '' '', CHR 0x0A, CHR 0x0D, CHR 0x09, CHR 0x0C, CHR 0x0B]"

definition isspace :: "char \<Rightarrow> bool" where
  "isspace c = (c = CHR '' '' \<or> c = CHR 0x09 \<or> c = CHR 0x0A \<or> c = CHR 0x0B
                \<or> c = CHR 0x0C \<or> c = CHR 0x0D)"

definition isdigit :: "char \<Rightarrow> bool" where
  "isdigit c = (48 \<le> (of_char c :: nat) \<and> (of_char c :: nat) \<le> 57)"

definition digit_value :: "char \<Rightarrow> int" where
  "digit_value c = int (of_char c) - 48"

text \<open>The value of a run of decimal digits, most significant first.\<close>

definition decimal :: "string \<Rightarrow> int" where
  "decimal ds = foldl (\<lambda>a c. 10 * a + digit_value c) 0 ds"

definition INT_MAX :: int where "INT_MAX = 2147483647"
definition INT_MIN :: int where "INT_MIN = - 2147483648"

text \<open>
  An optional sign followed by the longest run of digits, as \<^verbatim>\<open>strtol\<close> and
  \<^verbatim>\<open>num_get\<close> scan them in base 10: the sign, the digits, and what follows.
\<close>

definition scan_sign :: "string \<Rightarrow> bool \<times> string" where
  "scan_sign s =
     (case s of
        [] \<Rightarrow> (False, [])
      | c # t \<Rightarrow> if c = CHR ''-'' then (True, t)
                 else if c = CHR ''+'' then (False, t)
                 else (False, s))"

definition signed_value :: "bool \<Rightarrow> string \<Rightarrow> int" where
  "signed_value neg ds = (if neg then - decimal ds else decimal ds)"

subsection \<open>\<^verbatim>\<open>std::stoi\<close>\<close>

datatype exn = invalid_argument | out_of_range

text \<open>
  \<^verbatim>\<open>std::stoi(value)\<close>: leading white space is skipped, then an optional sign and the
  longest run of decimal digits are converted; whatever follows is ignored. No digit at
  all throws \<^verbatim>\<open>std::invalid_argument\<close>, a value that does not fit a 32-bit
  \<^verbatim>\<open>int\<close> throws \<^verbatim>\<open>std::out_of_range\<close>.
\<close>

definition stoi :: "string \<Rightarrow> exn + int" where
  "stoi s =
     (let (neg, t) = scan_sign (dropWhile isspace s);
          ds = takeWhile isdigit t;
          v = signed_value neg ds
      in if ds = [] then Inl invalid_argument
         else if v < INT_MIN \<or> INT_MAX < v then Inl out_of_range
         else Inr v)"

subsection \<open>\<^verbatim>\<open>rtrim\<close>\<close>

text \<open>
  \<^verbatim>\<open>s.find_last_not_of(WHITESPACE)\<close> and \<^verbatim>\<open>s.substr(0, end + 1)\<close>: the string
  without its trailing white space, empty when it is all white space.
\<close>

definition rtrim :: "string \<Rightarrow> string" where
  "rtrim s = rev (dropWhile (\<lambda>c. c \<in> set WHITESPACE) (rev s))"

subsection \<open>The input stream\<close>

text \<open>
  A \<^verbatim>\<open>std::ifstream\<close>: whether a file is open, the characters not yet read, and the
  two state bits the parser's calls can set. \<^verbatim>\<open>good()\<close> is both bits clear.
\<close>

record ifstream =
  is_open :: bool
  rdbuf :: string
  eofbit :: bool
  failbit :: bool

definition good :: "ifstream \<Rightarrow> bool" where
  "good fs = (\<not> eofbit fs \<and> \<not> failbit fs)"

text \<open>
  The constructor \<^verbatim>\<open>fs.open(filename, std::ios::in)\<close>: \<open>None\<close> is a file that cannot
  be opened, which leaves the stream closed with \<^verbatim>\<open>failbit\<close> set.
\<close>

definition ifstream_open :: "string option \<Rightarrow> ifstream" where
  "ifstream_open file =
     (case file of
        None \<Rightarrow> \<lparr>is_open = False, rdbuf = [], eofbit = False, failbit = True\<rparr>
      | Some content \<Rightarrow> \<lparr>is_open = True, rdbuf = content, eofbit = False, failbit = False\<rparr>)"

text \<open>
  \<^verbatim>\<open>std::getline(fs, line)\<close>. The sentry does not skip white space. On a stream
  that is not good the sentry fails: \<^verbatim>\<open>failbit\<close> is set and \<^verbatim>\<open>line\<close> keeps its
  old content. Otherwise \<^verbatim>\<open>line\<close> is erased and characters are moved to it up to a
  newline, which is consumed and dropped; reaching the end of the stream sets
  \<^verbatim>\<open>eofbit\<close>, and \<^verbatim>\<open>failbit\<close> too when nothing at all was extracted.
\<close>

definition getline :: "ifstream \<Rightarrow> string \<Rightarrow> ifstream \<times> string" where
  "getline fs line =
     (if \<not> good fs then (fs\<lparr>failbit := True\<rparr>, line)
      else let l = takeWhile (\<lambda>c. c \<noteq> CHR 0x0A) (rdbuf fs);
               r = dropWhile (\<lambda>c. c \<noteq> CHR 0x0A) (rdbuf fs)
           in case r of
                [] \<Rightarrow> (fs\<lparr>rdbuf := [], eofbit := True, failbit := (l = [])\<rparr>, l)
              | _ # rest \<Rightarrow> (fs\<lparr>rdbuf := rest\<rparr>, l))"

text \<open>
  \<^verbatim>\<open>fs >> v\<close> for an integer \<^verbatim>\<open>v\<close>. The second component is what the call stores:
  \<open>None\<close> when \<^verbatim>\<open>v\<close> is left untouched (the sentry failed: the stream was not good,
  or only white space was left), \<open>Some x\<close> when \<open>x\<close> is stored. A field without a
  digit stores 0 and sets \<^verbatim>\<open>failbit\<close>; a value outside \<^verbatim>\<open>int\<close> stores the nearest
  bound and sets \<^verbatim>\<open>failbit\<close>; a field that runs to the end of the stream sets
  \<^verbatim>\<open>eofbit\<close>. The call succeeded when \<^verbatim>\<open>failbit\<close> is clear afterwards.
\<close>

definition extract_int :: "ifstream \<Rightarrow> ifstream \<times> int option" where
  "extract_int fs =
     (if \<not> good fs then (fs\<lparr>failbit := True\<rparr>, None)
      else let b = dropWhile isspace (rdbuf fs) in
        if b = [] then (fs\<lparr>rdbuf := [], eofbit := True, failbit := True\<rparr>, None)
        else let (neg, t) = scan_sign b;
                 ds = takeWhile isdigit t;
                 r = dropWhile isdigit t;
                 v = signed_value neg ds;
                 fs' = fs\<lparr>rdbuf := r, eofbit := (r = [])\<rparr>
             in if ds = [] then (fs'\<lparr>failbit := True\<rparr>, Some 0)
                else if INT_MAX < v then (fs'\<lparr>failbit := True\<rparr>, Some INT_MAX)
                else if v < INT_MIN then (fs'\<lparr>failbit := True\<rparr>, Some INT_MIN)
                else (fs', Some v))"


subsection \<open>The two regular expressions\<close>

text \<open>
  \<^verbatim>\<open>is_blank\<close> searches \<^verbatim>\<open>^([ \n\r\t\f\v]*)$\<close>: the line consists of white space
  only. Both patterns of the parser are fixed and well formed; the model takes
  \<^verbatim>\<open>std::regex_search\<close> to return on them, so the handlers for
  \<^verbatim>\<open>std::regex_error\<close> have no branch here.
\<close>

definition is_blank :: "string \<Rightarrow> bool" where
  "is_blank s = list_all (\<lambda>c. c \<in> set WHITESPACE) s"

text \<open>The class \<^verbatim>\<open>[a-zA-Z0-9_]\<close>.\<close>

definition isword :: "char \<Rightarrow> bool" where
  "isword c =
     (let k = (of_char c :: nat)
      in (97 \<le> k \<and> k \<le> 122) \<or> (65 \<le> k \<and> k \<le> 90) \<or> (48 \<le> k \<and> k \<le> 57) \<or> k = 95)"

text \<open>
  \<^verbatim>\<open>std::regex_search(line, match, entry_key_regex)\<close> with the pattern
  \<^verbatim>\<open>([a-zA-Z0-9_]+)(: )?[ \t]*(.*)\<close>. The search is not anchored: the match starts
  at the first character of the class, since every later part of the pattern can match
  the empty string. All quantifiers are greedy: group 1 is the whole run of class
  characters, group 2 is \<^verbatim>\<open>": "\<close> when those two characters follow and empty
  otherwise, blanks and tabs are skipped, and group 3 runs up to the first line
  terminator (\<^verbatim>\<open>.\<close> matches neither \<^verbatim>\<open>\n\<close> nor \<^verbatim>\<open>\r\<close>). The result is the
  three groups, \<open>None\<close> when the line has no character of the class.
\<close>

definition entry_key_regex :: "string \<Rightarrow> (string \<times> string \<times> string) option" where
  "entry_key_regex line =
     (let s = dropWhile (\<lambda>c. \<not> isword c) line
      in if s = [] then None
         else let key = takeWhile isword s;
                  r = dropWhile isword s;
                  colon = (if take 2 r = '': '' then '': '' else []);
                  r1 = drop (length colon) r;
                  r2 = dropWhile (\<lambda>c. c = CHR '' '' \<or> c = CHR 0x09) r1;
                  v = takeWhile (\<lambda>c. c \<noteq> CHR 0x0A \<and> c \<noteq> CHR 0x0D) r2
              in Some (key, colon, v))"

section \<open>Data model\<close>

text \<open>
  \<^verbatim>\<open>Dist\<close>, \<^verbatim>\<open>Pos\<close>, the matrix classes of namespace \<^verbatim>\<open>ds\<close>, \<^verbatim>\<open>Instance\<close>,
  \<^verbatim>\<open>VarMapValueType\<close> and the members of \<^verbatim>\<open>InstanceParser\<close> are declared in
  headers that are not part of the sources at hand.
\<close>

text \<open>
  Modelled from the spec: the declarations of \<^verbatim>\<open>Dist\<close> and \<^verbatim>\<open>Pos\<close> and of the
  matrix classes are missing. The specification asks for a fixed-width signed integer
  (or floating) type for distances and describes a matrix as a grid addressable by row
  and column, created with a known dimension. Here both numeric types are
  \<^verbatim>\<open>int\<close>, and a matrix is a list of rows, as its use through \<^verbatim>\<open>m->size()\<close> and
  \<^verbatim>\<open>(*m)[i][j]\<close> requires.
\<close>

type_synonym matrix = "int list list"

text \<open>
  Modelled from the spec: what a freshly created matrix holds is decided by the missing
  \<^verbatim>\<open>Get\<close>; it is a parameter here, a function giving the initial content of each
  cell.
\<close>

type_synonym cells = "nat \<Rightarrow> nat \<Rightarrow> int"

text \<open>
  Modelled from the spec: \<^verbatim>\<open>ds::Matrix<T>::Get(rows, cols)\<close>, which is missing,
  creates a grid of that many rows and columns.
\<close>

definition Matrix_Get :: "cells \<Rightarrow> nat \<Rightarrow> nat \<Rightarrow> matrix" where
  "Matrix_Get c rows cols = map (\<lambda>i. map (\<lambda>j. c i j) [0..<cols]) [0..<rows]"

text \<open>
  Modelled from the spec: \<^verbatim>\<open>ds::SquareMatrix<T>::Get(n)\<close>, which is missing, creates
  the square variant, \<open>n\<close> rows of \<open>n\<close> cells.
\<close>

definition SquareMatrix_Get :: "cells \<Rightarrow> nat \<Rightarrow> matrix" where
  "SquareMatrix_Get c n = Matrix_Get c n n"

text \<open>
  The initial cells of the two matrices a parse creates: the distance matrix and the
  position table.
\<close>

record allocation =
  dist_cells :: cells
  pos_cells :: cells

text \<open>The assignment \<^verbatim>\<open>(*m)[i][j] = v\<close>, with both indices in range where it is used.\<close>

definition assign :: "matrix \<Rightarrow> nat \<Rightarrow> nat \<Rightarrow> int \<Rightarrow> matrix" where
  "assign m i j v = m[i := (m ! i)[j := v]]"

text \<open>
  Modelled from the spec: \<^verbatim>\<open>Instance\<close> is declared in a missing header. It has a name,
  a comment, the distance matrix and the optional position table; the two matrices are
  shared pointers, null until a data section stores one.
\<close>

record Instance =
  name :: string
  comment :: string
  dmatrix :: "matrix option"
  posmatrix :: "matrix option"

definition Instance_init :: Instance where
  "Instance_init = \<lparr>name = [], comment = [], dmatrix = None, posmatrix = None\<rparr>"

text \<open>
  Modelled from the spec: the field table \<^verbatim>\<open>entry_map\<close> is declared in the missing
  header. The specification describes a mapping with unique keys from field names to a
  value that is a string or an integer.
\<close>

datatype VarMapValueType = StringValue string | IntValue int

type_synonym entry_map_t = "string \<rightharpoonup> VarMapValueType"

text \<open>
  Modelled from the spec: the parser stores with
  \<^verbatim>\<open>entry_map.insert(std::make_pair(key, value))\<close>, an operation of the table whose
  type is declared in the missing header. The specification says that the pair of key
  and normalized value is inserted into the field table, overwriting any prior value for
  that key.
\<close>

definition map_insert :: "entry_map_t \<Rightarrow> string \<Rightarrow> VarMapValueType \<Rightarrow> entry_map_t" where
  "map_insert m k v = m(k \<mapsto> v)"

text \<open>
  Modelled from the spec: the members of \<^verbatim>\<open>InstanceParser\<close> the source uses, the
  stream \<^verbatim>\<open>fs\<close> and the field table \<^verbatim>\<open>entry_map\<close>; the class is declared in the
  missing header.
\<close>

record InstanceParser =
  fs :: ifstream
  entry_map :: entry_map_t

definition InstanceParser_Open :: "string option \<Rightarrow> InstanceParser" where
  "InstanceParser_Open file = \<lparr>fs = ifstream_open file, entry_map = Map.empty\<rparr>"

text \<open>
  Modelled from the spec: \<^verbatim>\<open>GetEntryValue<int>(key)\<close>, which is missing, looks a field
  up in the table and yields its value when the field is present and holds an integer.
\<close>

definition GetEntryValue_int :: "InstanceParser \<Rightarrow> string \<Rightarrow> int option" where
  "GetEntryValue_int p key =
     (case entry_map p key of Some (IntValue n) \<Rightarrow> Some n | _ \<Rightarrow> None)"

text \<open>
  Modelled from the spec: \<^verbatim>\<open>GetEntryValue<std::string>(key)\<close>, which is missing, does
  the same for a field that holds a string.
\<close>

definition GetEntryValue_string :: "InstanceParser \<Rightarrow> string \<Rightarrow> string option" where
  "GetEntryValue_string p key =
     (case entry_map p key of Some (StringValue s) \<Rightarrow> Some s | _ \<Rightarrow> None)"

subsection \<open>Ways a call ends without its result\<close>

text \<open>
  The source reports a failure by printing a diagnostic to \<^verbatim>\<open>std::cerr\<close> and
  returning \<^verbatim>\<open>false\<close>. Each place that does so is one constructor of \<open>cause\<close>, named
  after the error kind of the specification it corresponds to:
  \<^item> \<open>UnsupportedField key\<close>: \<^verbatim>\<open>Field <key> is unsupported.\<close>
  \<^item> \<open>InvalidFieldValue key value\<close>: \<^verbatim>\<open>Field <key> does not support the value <value>.\<close>
  \<^item> \<open>NonPositiveDimension\<close>: the \<^verbatim>\<open>return false\<close> after \<^verbatim>\<open>n <= 0\<close>, which prints
    nothing of its own
  \<^item> \<open>MissingField key\<close>: \<^verbatim>\<open>Field <key> not defined!\<close>
  \<^item> \<open>UnsupportedFormat v\<close>: \<^verbatim>\<open>Unsuported EDGE_WEIGHT_FORMAT with value '<v>'.\<close>
  \<^item> \<open>MatrixParseError i j\<close>: \<^verbatim>\<open>Error on row <i>, col<j>.\<close>
  \<^item> \<open>InvalidNode\<close>: \<^verbatim>\<open>Invalid node in DISPLAY_DATA_SECTION.\<close>
  \<^item> \<open>SpecificationAfterData\<close>: \<^verbatim>\<open>Corrupted file: specification found in the data section.\<close>
  \<^item> \<open>MalformedLine\<close>: \<^verbatim>\<open>Did not match regex.\<close>

  A call can also end by a C++ exception, or run into undefined behaviour: an access
  outside a vector, the use of a variable that was never given a value, a signed
  overflow.
\<close>

datatype cause =
    UnsupportedField string
  | InvalidFieldValue string string
  | NonPositiveDimension
  | MissingField string
  | UnsupportedFormat string
  | MatrixParseError nat nat
  | InvalidNode
  | SpecificationAfterData
  | MalformedLine

datatype ub = OutOfBounds | IndeterminateValue | SignedOverflow

datatype stop = Failed cause | Throws exn | Undefined ub

text \<open>A counted \<^verbatim>\<open>for\<close> loop whose body can stop the whole function.\<close>

primrec for_each :: "nat list \<Rightarrow> (nat \<Rightarrow> 's \<Rightarrow> 'e + 's) \<Rightarrow> 's \<Rightarrow> 'e + 's" where
  "for_each [] body s = Inr s"
| "for_each (i # is) body s =
     (case body i s of Inl e \<Rightarrow> Inl e | Inr s' \<Rightarrow> for_each is body s')"

section \<open>Matrix builders\<close>

text \<open>
  \<^verbatim>\<open>if (!(fs >> dij))\<close>: the extraction, and the value when it succeeded.
\<close>

definition read_Dist :: "ifstream \<Rightarrow> (ifstream \<times> int) option" where
  "read_Dist s =
     (let (s', v) = extract_int s
      in case v of
           None \<Rightarrow> None
         | Some d \<Rightarrow> if failbit s' then None else Some (s', d))"

definition buildFullMatrix :: "ifstream \<Rightarrow> matrix \<Rightarrow> stop + ifstream \<times> matrix" where
  "buildFullMatrix s m =
     (let n = length m
      in for_each [0..<n] (\<lambda>i.
           for_each [0..<n] (\<lambda>j (s, m).
             case read_Dist s of
               None \<Rightarrow> Inl (Failed (MatrixParseError i j))
             | Some (s', d) \<Rightarrow> Inr (s', assign m i j d))) (s, m))"

definition buildLowDiagRow :: "ifstream \<Rightarrow> matrix \<Rightarrow> stop + ifstream \<times> matrix" where
  "buildLowDiagRow s m =
     (let n = length m
      in for_each [0..<n] (\<lambda>i.
           for_each [0..<Suc i] (\<lambda>j (s, m).
             case read_Dist s of
               None \<Rightarrow> Inl (Failed (MatrixParseError i j))
             | Some (s', dij) \<Rightarrow> Inr (s', assign (assign m j i dij) i j dij))) (s, m))"

definition buildUpperRow :: "ifstream \<Rightarrow> matrix \<Rightarrow> stop + ifstream \<times> matrix" where
  "buildUpperRow s m =
     (let n = length m
      in for_each [0..<n] (\<lambda>i.
           for_each [Suc i..<n] (\<lambda>j (s, m).
             case read_Dist s of
               None \<Rightarrow> Inl (Failed (MatrixParseError i j))
             | Some (s', dij) \<Rightarrow> Inr (s', assign (assign m j i dij) i j dij))) (s, m))"

type_synonym MatrixBuilder = "ifstream \<Rightarrow> matrix \<Rightarrow> stop + ifstream \<times> matrix"

definition ew_formats :: "(string \<times> MatrixBuilder) list" where
  "ew_formats =
     [(''FULL_MATRIX'', buildFullMatrix),
      (''UPPER_ROW'', buildUpperRow),
      (''LOWER_DIAG_ROW'', buildLowDiagRow)]"


section \<open>The parser\<close>

subsection \<open>\<^verbatim>\<open>ParseSpecification\<close>\<close>

text \<open>
  The chain of comparisons on the key, in the order of the source. The value of
  \<^verbatim>\<open>DIMENSION\<close> goes through \<^verbatim>\<open>stoi\<close>, whose exceptions leave the function. A valid
  entry is stored with \<^verbatim>\<open>entry_map.insert\<close>.
\<close>

definition ParseSpecification ::
  "InstanceParser \<Rightarrow> Instance \<Rightarrow> string \<times> string \<Rightarrow> stop + InstanceParser \<times> Instance" where
  "ParseSpecification p inst entry =
     (let (key, val) = entry;
          store = (\<lambda>inst' v. Inr (p\<lparr>entry_map := map_insert (entry_map p) key v\<rparr>, inst'));
          invalid_value = Inl (Failed (InvalidFieldValue key val))
      in if key = ''NAME'' then store (inst\<lparr>name := val\<rparr>) (StringValue val)
         else if key = ''TYPE'' then
           (if val \<noteq> ''TSP'' then invalid_value else store inst (StringValue val))
         else if key = ''COMMENT'' then store (inst\<lparr>comment := val\<rparr>) (StringValue val)
         else if key = ''DIMENSION'' then
           (case stoi val of
              Inl e \<Rightarrow> Inl (Throws e)
            | Inr n \<Rightarrow> if n \<le> 0 then Inl (Failed NonPositiveDimension)
                       else store inst (IntValue n))
         else if key = ''EDGE_WEIGHT_TYPE'' then
           (if val \<noteq> ''EXPLICIT'' then invalid_value else store inst (StringValue val))
         else if key = ''EDGE_WEIGHT_FORMAT'' then store inst (StringValue val)
         else if key = ''NODE_COORD_TYPE'' then
           (if val \<noteq> ''NO_COORDS'' then invalid_value else store inst (StringValue val))
         else if key = ''DISPLAY_DATA_TYPE'' then
           (if val \<noteq> ''TWOD_DISPLAY'' \<and> val \<noteq> ''NO_DISPLAY'' then invalid_value
            else store inst (StringValue val))
         else Inl (Failed (UnsupportedField key)))"

subsection \<open>\<^verbatim>\<open>ParseDisplayData\<close>\<close>

text \<open>
  The locals \<^verbatim>\<open>node\<close>, \<^verbatim>\<open>x\<close> and \<^verbatim>\<open>y\<close> are declared without a value: \<open>None\<close> is
  a variable never assigned. \<^verbatim>\<open>fs >> node >> x >> y\<close> is three extractions whose
  outcome the source does not test; an extraction that stores nothing leaves the variable
  as it was.
\<close>

definition stored :: "int option \<Rightarrow> int option \<Rightarrow> int option" where
  "stored v old = (case v of None \<Rightarrow> old | Some x \<Rightarrow> Some x)"

type_synonym display_state =
  "ifstream \<times> int option \<times> int option \<times> int option \<times> matrix \<times> bool list"

text \<open>
  One round of the loop over the \<open>n\<close> triples. After \<^verbatim>\<open>node--\<close> the only test before
  \<^verbatim>\<open>visited[node]\<close> is \<^verbatim>\<open>node >= n\<close>, a comparison of two \<^verbatim>\<open>int\<close>s; a negative
  \<^verbatim>\<open>node\<close> reaches the vector access.
\<close>

definition display_round :: "int \<Rightarrow> nat \<Rightarrow> display_state \<Rightarrow> stop + display_state" where
  "display_round n i st =
     (let (s, node, x, y, posm, visited) = st;
          (s1, a) = extract_int s;
          (s2, b) = extract_int s1;
          (s3, c) = extract_int s2;
          node1 = stored a node; x1 = stored b x; y1 = stored c y
      in case node1 of
           None \<Rightarrow> Inl (Undefined IndeterminateValue)
         | Some k \<Rightarrow>
             if k = INT_MIN then Inl (Undefined SignedOverflow)
             else let nd = k - 1 in
               if nd \<ge> n then Inl (Failed InvalidNode)
               else if nd < 0 then Inl (Undefined OutOfBounds)
               else if visited ! nat nd then Inl (Failed InvalidNode)
               else (case (x1, y1) of
                       (Some xv, Some yv) \<Rightarrow>
                         Inr (s3, Some nd, x1, y1,
                              assign (assign posm (nat nd) 0 xv) (nat nd) 1 yv,
                              visited[nat nd := True])
                     | _ \<Rightarrow> Inl (Undefined IndeterminateValue)))"

text \<open>
  \<^verbatim>\<open>DIMENSION\<close> is only ever stored positive, so the conversions of \<open>n\<close> to a size
  are those of a positive number.
\<close>

definition ParseDisplayData ::
  "allocation \<Rightarrow> InstanceParser \<Rightarrow> Instance \<Rightarrow> stop + InstanceParser \<times> Instance" where
  "ParseDisplayData al p inst =
     (case GetEntryValue_int p ''DIMENSION'' of
        None \<Rightarrow> Inl (Failed (MissingField ''DIMENSION''))
      | Some n \<Rightarrow>
         (case GetEntryValue_string p ''DISPLAY_DATA_TYPE'' of
            None \<Rightarrow> Inl (Failed (MissingField ''DISPLAY_DATA_TYPE''))
          | Some display_type \<Rightarrow>
             if display_type \<noteq> ''TWOD_DISPLAY''
             then Inl (Failed (InvalidFieldValue ''DISPLAY_DATA_TYPE'' display_type))
             else
               (case for_each [0..<nat n] (display_round n)
                       (fs p, None, None, None,
                        Matrix_Get (pos_cells al) (nat n) 2, replicate (nat n) False) of
                  Inl e \<Rightarrow> Inl e
                | Inr (s, node, x, y, posm, visited) \<Rightarrow>
                    Inr (p\<lparr>fs := s\<rparr>, inst\<lparr>posmatrix := Some posm\<rparr>))))"

subsection \<open>\<^verbatim>\<open>ParseEdgeWeights\<close>\<close>

definition clear_diagonal :: "nat \<Rightarrow> matrix \<Rightarrow> matrix" where
  "clear_diagonal n m = foldl (\<lambda>m i. assign m i i 0) m [0..<n]"

definition ParseEdgeWeights ::
  "allocation \<Rightarrow> InstanceParser \<Rightarrow> Instance \<Rightarrow> stop + InstanceParser \<times> Instance" where
  "ParseEdgeWeights al p inst =
     (case GetEntryValue_int p ''DIMENSION'' of
        None \<Rightarrow> Inl (Failed (MissingField ''DIMENSION''))
      | Some n \<Rightarrow>
         (case GetEntryValue_string p ''EDGE_WEIGHT_FORMAT'' of
            None \<Rightarrow> Inl (Failed (MissingField ''EDGE_WEIGHT_FORMAT''))
          | Some ew_format \<Rightarrow>
             (let dm = clear_diagonal (nat n) (SquareMatrix_Get (dist_cells al) (nat n))
              in case find (\<lambda>opt. fst opt = ew_format) ew_formats of
                   None \<Rightarrow> Inl (Failed (UnsupportedFormat ew_format))
                 | Some builder \<Rightarrow>
                    (case snd builder (fs p) dm of
                       Inl e \<Rightarrow> Inl e
                     | Inr (s, dm') \<Rightarrow> Inr (p\<lparr>fs := s\<rparr>, inst\<lparr>dmatrix := Some dm'\<rparr>)))))"

subsection \<open>\<^verbatim>\<open>ParseData\<close>\<close>

definition ParseData ::
  "allocation \<Rightarrow> InstanceParser \<Rightarrow> Instance \<Rightarrow> string \<Rightarrow> stop + InstanceParser \<times> Instance" where
  "ParseData al p inst key =
     (if key = ''DISPLAY_DATA_SECTION'' then ParseDisplayData al p inst
      else if key = ''EDGE_WEIGHT_SECTION'' then ParseEdgeWeights al p inst
      else Inl (Failed (UnsupportedField key)))"

subsection \<open>\<^verbatim>\<open>Parse\<close>\<close>

text \<open>
  What a call of \<^verbatim>\<open>Parse\<close> does when it ends: it returns the instance, or it returns
  \<^verbatim>\<open>std::nullopt\<close> after a diagnostic, or an exception leaves it, or its behaviour is
  undefined. \<open>ParsingError c line\<close> is the exit through the label
  \<^verbatim>\<open>parsing_error\<close>, which prints the line last read after the diagnostic \<open>c\<close>.
\<close>

datatype parse_result =
    Success Instance
  | FileNotOpen
  | ParsingError cause string
  | MissingDistanceMatrix
  | Uncaught exn
  | UndefinedBehaviour ub

definition abort :: "stop \<Rightarrow> string \<Rightarrow> parse_result" where
  "abort e line =
     (case e of
        Failed c \<Rightarrow> ParsingError c line
      | Throws x \<Rightarrow> Uncaught x
      | Undefined u \<Rightarrow> UndefinedBehaviour u)"

text \<open>
  The inner loop: \<^verbatim>\<open>std::getline\<close> until the line is not blank. The source does not
  look at the state of the stream, so the loop need not end; the first argument bounds
  the number of rounds, and \<open>None\<close> is a loop that has not ended within it.
\<close>

fun next_line :: "nat \<Rightarrow> ifstream \<Rightarrow> string \<Rightarrow> (ifstream \<times> string) option" where
  "next_line 0 s line = None"
| "next_line (Suc k) s line =
     (let (s', line') = getline s line
      in if is_blank line' then next_line k s' line' else Some (s', line'))"

text \<open>
  The body of the outer loop for a line that is neither blank nor \<^verbatim>\<open>EOF\<close>: the state
  after the line, or the result \<^verbatim>\<open>Parse\<close> ends with.
\<close>

definition Parse_entry ::
  "allocation \<Rightarrow> InstanceParser \<Rightarrow> Instance \<Rightarrow> bool \<Rightarrow> string
     \<Rightarrow> parse_result + InstanceParser \<times> Instance \<times> bool" where
  "Parse_entry al p inst parsing_specifications line =
     (case entry_key_regex line of
        None \<Rightarrow> Inl (ParsingError MalformedLine line)
      | Some (key, colon, rest) \<Rightarrow>
         (let val = rtrim rest
          in if colon = [] then
               (case ParseData al p inst key of
                  Inl e \<Rightarrow> Inl (abort e line)
                | Inr (p', inst') \<Rightarrow> Inr (p', inst', False))
             else if parsing_specifications then
               (case ParseSpecification p inst (key, val) of
                  Inl e \<Rightarrow> Inl (abort e line)
                | Inr (p', inst') \<Rightarrow> Inr (p', inst', True))
             else Inl (ParsingError SpecificationAfterData line)))"

text \<open>
  The outer loop, bounded in the same way. \<open>Inr inst\<close> is the \<^verbatim>\<open>break\<close> at the line
  \<^verbatim>\<open>EOF\<close>. The variable \<^verbatim>\<open>line\<close> lives across the rounds.
\<close>

fun Parse_loop ::
  "allocation \<Rightarrow> nat \<Rightarrow> InstanceParser \<Rightarrow> Instance \<Rightarrow> bool \<Rightarrow> string
     \<Rightarrow> (parse_result + Instance) option" where
  "Parse_loop al 0 p inst ps line = None"
| "Parse_loop al (Suc k) p inst ps line =
     (case next_line k (fs p) line of
        None \<Rightarrow> None
      | Some (s, line') \<Rightarrow>
          if line' = ''EOF'' then Some (Inr inst)
          else (case Parse_entry al (p\<lparr>fs := s\<rparr>) inst ps line' of
                  Inl r \<Rightarrow> Some (Inl r)
                | Inr (p', inst', ps') \<Rightarrow> Parse_loop al k p' inst' ps' line'))"

text \<open>
  \<^verbatim>\<open>Parse\<close>: the test that the file is open, the loop, and the test that a distance
  matrix was stored. \<open>None\<close> is a call that has not returned within the bound.
\<close>

definition Parse :: "allocation \<Rightarrow> nat \<Rightarrow> InstanceParser \<Rightarrow> parse_result option" where
  "Parse al fuel p =
     (if \<not> is_open (fs p) then Some FileNotOpen
      else case Parse_loop al fuel p Instance_init True [] of
             None \<Rightarrow> None
           | Some (Inl r) \<Rightarrow> Some r
           | Some (Inr inst) \<Rightarrow>
               if dmatrix inst = None then Some MissingDistanceMatrix
               else Some (Success inst))"


section \<open>Notions used in the properties\<close>

text \<open>
  Properties of a distance matrix: \<open>n\<close> rows of \<open>n\<close> cells, equal across the
  diagonal, zero on the diagonal.
\<close>

definition square :: "nat \<Rightarrow> matrix \<Rightarrow> bool" where
  "square n m = (length m = n \<and> list_all (\<lambda>r. length r = n) m)"

definition symmetric :: "matrix \<Rightarrow> bool" where
  "symmetric m =
     list_all (\<lambda>i. list_all (\<lambda>j. m ! i ! j = m ! j ! i) [0..<length m]) [0..<length m]"

definition zero_diagonal :: "matrix \<Rightarrow> bool" where
  "zero_diagonal m = list_all (\<lambda>i. m ! i ! i = 0) [0..<length m]"

text \<open>White space between two numbers of a data section: at least one character.\<close>

definition separator :: "string \<Rightarrow> bool" where
  "separator w = (w \<noteq> [] \<and> list_all isspace w)"

text \<open>The numbers of a data section, each preceded by its white space.\<close>

definition spaced :: "string list \<Rightarrow> string list \<Rightarrow> string" where
  "spaced ws ts = concat (map2 (@) ws ts)"

text \<open>
  What \<^verbatim>\<open>ParseSpecification\<close> holds in its local \<^verbatim>\<open>entry_map_value\<close> when it reaches
  the insertion: the number for \<^verbatim>\<open>DIMENSION\<close>, the value as it is for every other
  key.
\<close>

definition entry_map_value :: "string \<Rightarrow> string \<Rightarrow> VarMapValueType" where
  "entry_map_value key val =
     (if key = ''DIMENSION''
      then (case stoi val of Inr n \<Rightarrow> IntValue n | Inl e \<Rightarrow> StringValue val)
      else StringValue val)"

text \<open>
  The value of a header line: what follows the separator, without leading blanks and
  tabs, cut at the first line terminator, right-trimmed.
\<close>

definition header_value :: "string \<Rightarrow> string" where
  "header_value rest =
     rtrim (takeWhile (\<lambda>c. c \<noteq> CHR 0x0A \<and> c \<noteq> CHR 0x0D)
              (dropWhile (\<lambda>c. c = CHR '' '' \<or> c = CHR 0x09) rest))"

text \<open>
  The header entries of one parse, validated in the order of the file: what the loop of
  \<^verbatim>\<open>Parse\<close> does with the entries it meets while \<^verbatim>\<open>parsing_specifications\<close> holds.
  The first entry that is not valid ends the run.
\<close>

fun ParseSpecification_all ::
  "InstanceParser \<Rightarrow> Instance \<Rightarrow> (string \<times> string) list \<Rightarrow> stop + InstanceParser \<times> Instance" where
  "ParseSpecification_all p inst [] = Inr (p, inst)"
| "ParseSpecification_all p inst (entry # entries) =
     (case ParseSpecification p inst entry of
        Inl e \<Rightarrow> Inl e
      | Inr (p', inst') \<Rightarrow> ParseSpecification_all p' inst' entries)"

section \<open>Inputs used as examples\<close>

definition zero_allocation :: allocation where
  "zero_allocation = \<lparr>dist_cells = (\<lambda>i j. 0), pos_cells = (\<lambda>i j. 0)\<rparr>"

definition closed_parser :: InstanceParser where
  "closed_parser = InstanceParser_Open None"

definition lower_diag_row_file :: string where
  "lower_diag_row_file =
     ''DIMENSION: 4'' @ [CHR 0x0A] @
     ''EDGE_WEIGHT_FORMAT: LOWER_DIAG_ROW'' @ [CHR 0x0A] @
     ''EDGE_WEIGHT_SECTION'' @ [CHR 0x0A] @
     ''0 1 0 2 3 0 4 5 6 0'' @ [CHR 0x0A] @
     ''EOF'' @ [CHR 0x0A]"

definition lower_diag_row_lines_file :: string where
  "lower_diag_row_lines_file =
     ''DIMENSION: 4'' @ [CHR 0x0A] @
     ''EDGE_WEIGHT_FORMAT: LOWER_DIAG_ROW'' @ [CHR 0x0A] @
     ''EDGE_WEIGHT_SECTION'' @ [CHR 0x0A] @
     '' 0'' @ [CHR 0x0A] @
     '' 1 0'' @ [CHR 0x0A] @
     '' 2 3 0'' @ [CHR 0x0A] @
     '' 4 5 6 0'' @ [CHR 0x0A] @
     ''EOF'' @ [CHR 0x0A]"

definition full_matrix_file :: string where
  "full_matrix_file =
     ''DIMENSION: 2'' @ [CHR 0x0A] @
     ''EDGE_WEIGHT_FORMAT: FULL_MATRIX'' @ [CHR 0x0A] @
     ''EDGE_WEIGHT_SECTION'' @ [CHR 0x0A] @
     ''0 1'' @ [CHR 0x0A] @
     ''2 3'' @ [CHR 0x0A] @
     ''EOF'' @ [CHR 0x0A]"

definition low_diag_row_nonzero_file :: string where
  "low_diag_row_nonzero_file =
     ''DIMENSION: 2'' @ [CHR 0x0A] @
     ''EDGE_WEIGHT_FORMAT: LOWER_DIAG_ROW'' @ [CHR 0x0A] @
     ''EDGE_WEIGHT_SECTION'' @ [CHR 0x0A] @
     ''5'' @ [CHR 0x0A] @
     ''1 7'' @ [CHR 0x0A] @
     ''EOF'' @ [CHR 0x0A]"

definition upper_row_3_parser :: InstanceParser where
  "upper_row_3_parser =
     \<lparr>fs = ifstream_open (Some (''1 2 3'' @ [CHR 0x0A] @ ''EOF'' @ [CHR 0x0A])),
      entry_map = [''DIMENSION'' \<mapsto> IntValue 3, ''EDGE_WEIGHT_FORMAT'' \<mapsto> StringValue ''UPPER_ROW'']\<rparr>"

definition low_diag_row_2_parser :: InstanceParser where
  "low_diag_row_2_parser =
     \<lparr>fs = ifstream_open (Some (''5 1 7'' @ [CHR 0x0A] @ ''EOF'' @ [CHR 0x0A])),
      entry_map = [''DIMENSION'' \<mapsto> IntValue 2,
                   ''EDGE_WEIGHT_FORMAT'' \<mapsto> StringValue ''LOWER_DIAG_ROW'']\<rparr>"

definition after_payload :: "InstanceParser \<Rightarrow> InstanceParser" where
  "after_payload p = p\<lparr>fs := (fs p)\<lparr>rdbuf := [CHR 0x0A] @ ''EOF'' @ [CHR 0x0A]\<rparr>\<rparr>"

definition dimension_3_parser :: InstanceParser where
  "dimension_3_parser = closed_parser\<lparr>entry_map := [''DIMENSION'' \<mapsto> IntValue 3]\<rparr>"

definition repeated_dimension_parser :: InstanceParser where
  "repeated_dimension_parser =
     closed_parser\<lparr>entry_map :=
       [''DIMENSION'' \<mapsto> IntValue 3, ''NAME'' \<mapsto> StringValue ''x'',
        ''DIMENSION'' \<mapsto> IntValue 5, ''TYPE'' \<mapsto> StringValue ''TSP'']\<rparr>"

definition repeated_comment_parser :: InstanceParser where
  "repeated_comment_parser =
     closed_parser\<lparr>entry_map :=
       [''COMMENT'' \<mapsto> StringValue ''a'', ''COMMENT'' \<mapsto> StringValue ''b'']\<rparr>"

definition repeated_dimension_file :: string where
  "repeated_dimension_file =
     ''DIMENSION: 1'' @ [CHR 0x0A] @
     ''DIMENSION: 3'' @ [CHR 0x0A] @
     ''EDGE_WEIGHT_FORMAT: UPPER_ROW'' @ [CHR 0x0A] @
     ''EDGE_WEIGHT_SECTION'' @ [CHR 0x0A] @
     ''1 2 3'' @ [CHR 0x0A] @
     ''EOF'' @ [CHR 0x0A]"

definition overlong_dimension_file :: string where
  "overlong_dimension_file = ''DIMENSION: 99999999999abc'' @ [CHR 0x0A] @ ''EOF'' @ [CHR 0x0A]"

definition non_numeric_dimension_file :: string where
  "non_numeric_dimension_file = ''DIMENSION: abc'' @ [CHR 0x0A] @ ''EOF'' @ [CHR 0x0A]"

definition no_sentinel_file :: string where
  "no_sentinel_file = ''NAME: x'' @ [CHR 0x0A]"

definition node_zero_file :: string where
  "node_zero_file =
     ''DIMENSION: 2'' @ [CHR 0x0A] @
     ''DISPLAY_DATA_TYPE: TWOD_DISPLAY'' @ [CHR 0x0A] @
     ''DISPLAY_DATA_SECTION'' @ [CHR 0x0A] @
     ''0 1 1'' @ [CHR 0x0A] @
     ''1 2 2'' @ [CHR 0x0A] @
     ''EOF'' @ [CHR 0x0A]"

definition named_parser :: InstanceParser where
  "named_parser = closed_parser\<lparr>entry_map := [''NAME'' \<mapsto> StringValue ''x'']\<rparr>"

definition header_only_file :: string where
  "header_only_file =
     ''NAME: x'' @ [CHR 0x0A] @
     ''TYPE: TSP'' @ [CHR 0x0A] @
     ''EOF'' @ [CHR 0x0A]"

definition header_only_instance :: Instance where
  "header_only_instance = Instance_init\<lparr>name := ''x''\<rparr>"

definition upper_row_parser :: InstanceParser where
  "upper_row_parser =
     \<lparr>fs = ifstream_open (Some (''EOF'' @ [CHR 0x0A])),
      entry_map = [''DIMENSION'' \<mapsto> IntValue 1, ''EDGE_WEIGHT_FORMAT'' \<mapsto> StringValue ''UPPER_ROW'']\<rparr>"

section \<open>Properties\<close>

subsection \<open>Runs of characters and numbers\<close>

lemma takeWhile_run:
  assumes "list_all P ds" and "rest = [] \<or> \<not> P (hd rest)"
  shows "takeWhile P (ds @ rest) = ds"
  using assms by (cases rest) (auto simp add: list_all_iff)

lemma dropWhile_run:
  assumes "list_all P ds" and "rest = [] \<or> \<not> P (hd rest)"
  shows "dropWhile P (ds @ rest) = rest"
  using assms by (cases rest) (auto simp add: list_all_iff)

lemma isdigit_not_isspace: "isdigit c \<Longrightarrow> \<not> isspace c"
  by (auto simp add: isdigit_def isspace_def)

lemma scan_sign_digit: "isdigit c \<Longrightarrow> scan_sign (c # t) = (False, c # t)"
  by (auto simp add: isdigit_def scan_sign_def)

text \<open>What \<^verbatim>\<open>stoi\<close> makes of a run of digits followed by something that is not one.\<close>

lemma decimal_foldl_nonneg:
  "0 \<le> a \<Longrightarrow> list_all isdigit ds \<Longrightarrow> 0 \<le> foldl (\<lambda>a c. 10 * a + digit_value c) a ds"
  by (induction ds arbitrary: a) (auto simp add: isdigit_def digit_value_def)

lemma decimal_nonneg: "list_all isdigit ds \<Longrightarrow> 0 \<le> decimal ds"
  by (simp add: decimal_def decimal_foldl_nonneg)

lemma stoi_digits:
  assumes "ds \<noteq> []" and "list_all isdigit ds" and "rest = [] \<or> \<not> isdigit (hd rest)"
  shows "stoi (ds @ rest) = (if INT_MAX < decimal ds then Inl out_of_range else Inr (decimal ds))"
proof -
  from assms(1) obtain d ds' where ds: "ds = d # ds'" by (cases ds) auto
  with assms(2) have d: "isdigit d" by simp
  have skip: "dropWhile isspace (ds @ rest) = ds @ rest"
    using d ds by (simp add: isdigit_not_isspace)
  have sign: "scan_sign (ds @ rest) = (False, ds @ rest)"
    using d ds by (simp add: scan_sign_digit)
  have run: "takeWhile isdigit (ds @ rest) = ds"
    using assms(2,3) by (rule takeWhile_run)
  have "INT_MIN \<le> decimal ds"
    using decimal_nonneg [OF assms(2)] by (simp add: INT_MIN_def)
  then show ?thesis
    using assms(1) by (simp add: stoi_def skip sign run signed_value_def)
qed

text \<open>A value that starts with neither white space, a sign nor a digit has no number.\<close>

lemma stoi_no_digit:
  assumes "val = [] \<or> (\<not> isspace (hd val) \<and> hd val \<noteq> CHR ''-'' \<and> hd val \<noteq> CHR ''+''
                        \<and> \<not> isdigit (hd val))"
  shows "stoi val = Inl invalid_argument"
  using assms by (cases val) (auto simp add: stoi_def scan_sign_def)

text \<open>Reading a one-digit number after white space.\<close>

lemma separator_hd: "separator w \<Longrightarrow> \<not> isdigit (hd (w @ r))"
  by (cases w) (auto simp add: separator_def isdigit_def isspace_def)

lemma separator_append: "separator w \<Longrightarrow> w @ r \<noteq> []"
  by (simp add: separator_def)

lemma separator_facts:
  assumes "separator w"
  shows "w \<noteq> []" and "list_all isspace w" and "\<not> isdigit (hd w)"
  using assms by (cases w; auto simp add: separator_def isdigit_def isspace_def)+

lemma read_Dist_digit:
  assumes ws: "list_all isspace w" and d: "isdigit d" and r: "r \<noteq> []" "\<not> isdigit (hd r)"
  shows "read_Dist \<lparr>is_open = b, rdbuf = w @ d # r, eofbit = False, failbit = False\<rparr>
           = Some (\<lparr>is_open = b, rdbuf = r, eofbit = False, failbit = False\<rparr>, digit_value d)"
proof -
  have skip: "dropWhile isspace (w @ d # r) = d # r"
    using ws d by (intro dropWhile_run) (simp_all add: isdigit_not_isspace)
  have run: "takeWhile isdigit r = []" "dropWhile isdigit r = r"
    using r by (cases r; simp)+
  have val: "0 \<le> digit_value d" "digit_value d \<le> 9"
    using d by (simp_all add: isdigit_def digit_value_def)
  have ex: "\<exists>x\<in>set r. \<not> isdigit x"
    using r by (cases r) auto
  show ?thesis
    using val r(1) d ex
    by (simp add: read_Dist_def extract_int_def good_def skip scan_sign_digit [OF d] run
        signed_value_def decimal_def INT_MAX_def INT_MIN_def)
qed

subsection \<open>Counted loops\<close>

text \<open>
  A counted loop keeps an invariant that may depend on the index.
\<close>

lemma for_each_append:
  "for_each (xs @ ys) body s =
     (case for_each xs body s of Inl e \<Rightarrow> Inl e | Inr t \<Rightarrow> for_each ys body t)"
  by (induction xs arbitrary: s) (auto split: sum.splits)

lemma for_each_upt_invariant:
  assumes run: "for_each [a..<b] body s = Inr t"
    and le: "a \<le> b"
    and init: "P a s"
    and step: "\<And>i u v. a \<le> i \<Longrightarrow> i < b \<Longrightarrow> P i u \<Longrightarrow> body i u = Inr v \<Longrightarrow> P (Suc i) v"
  shows "P b t"
  using run le step
proof (induction b arbitrary: t)
  case 0
  with init show ?case by simp
next
  case (Suc b)
  show ?case
  proof (cases "a = Suc b")
    case True
    with Suc.prems(1) init show ?thesis by simp
  next
    case False
    with Suc.prems(2) have ab: "a \<le> b" by simp
    then have split: "[a..<Suc b] = [a..<b] @ [b]" by simp
    from Suc.prems(1) obtain u where u: "for_each [a..<b] body s = Inr u" and last: "body b u = Inr t"
      unfolding split for_each_append by (auto split: sum.splits)
    have "P b u"
      using u ab
    proof (rule Suc.IH)
      fix i u' v
      assume "a \<le> i" "i < b" "P i u'" "body i u' = Inr v"
      then show "P (Suc i) v" using Suc.prems(3) [of i u' v] by simp
    qed
    with ab last show ?thesis using Suc.prems(3) [of b u t] by simp
  qed
qed

subsection \<open>Cells of a square matrix\<close>

text \<open>Assignments to cells of a square matrix.\<close>

lemma square_assign: "square n m \<Longrightarrow> square n (assign m i j v)"
proof -
  assume sq: "square n m"
  have "length (m[i := (m ! i)[j := v]] ! k) = n" if "k < length m" for k
    using that sq by (cases "k = i") (auto simp add: square_def list_all_length)
  with sq show ?thesis
    by (simp add: square_def assign_def list_all_length)
qed

lemma assign_nth:
  "square n m \<Longrightarrow> i < n \<Longrightarrow> j < n \<Longrightarrow> a < n \<Longrightarrow> b < n \<Longrightarrow>
   assign m i j v ! a ! b = (if a = i \<and> b = j then v else m ! a ! b)"
  by (auto simp add: square_def assign_def list_all_length nth_list_update)

lemma if_either: "(if A then d else if B then d else x) = (if A \<or> B then d else x)"
  by simp

lemma mirror_nth:
  assumes "square n m" "i < n" "j < n" "a < n" "b < n"
  shows "assign (assign m j i d) i j d ! a ! b =
           (if (a = i \<and> b = j) \<or> (a = j \<and> b = i) then d else m ! a ! b)"
proof -
  have sq: "square n (assign m j i d)" using assms(1) by (rule square_assign)
  have inner: "assign m j i d ! a ! b = (if a = j \<and> b = i then d else m ! a ! b)"
    using assms(1,3,2,4,5) by (rule assign_nth)
  have outer: "assign (assign m j i d) i j d ! a ! b =
          (if a = i \<and> b = j then d else assign m j i d ! a ! b)"
    using sq assms(2-5) by (rule assign_nth)
  show ?thesis unfolding outer inner by (rule if_either)
qed

lemma square_mirror: "square n m \<Longrightarrow> square n (assign (assign m j i d) i j d)"
  by (simp add: square_assign)

lemma square_Get: "square n (SquareMatrix_Get c n)"
  by (simp add: square_def SquareMatrix_Get_def Matrix_Get_def list_all_iff)

lemma clear_diagonal_upto:
  assumes "square n m" and "k \<le> n"
  shows "square n (foldl (\<lambda>m i. assign m i i 0) m [0..<k])
         \<and> (\<forall>a<k. foldl (\<lambda>m i. assign m i i 0) m [0..<k] ! a ! a = 0)"
  using assms(2)
proof (induction k)
  case 0
  with assms(1) show ?case by simp
next
  case (Suc k)
  then have ih: "square n (foldl (\<lambda>m i. assign m i i 0) m [0..<k])"
    "\<forall>a<k. foldl (\<lambda>m i. assign m i i 0) m [0..<k] ! a ! a = 0" by simp_all
  from Suc.prems have k: "k < n" by simp
  let ?m = "foldl (\<lambda>m i. assign m i i 0) m [0..<k]"
  have next_m: "foldl (\<lambda>m i. assign m i i 0) m [0..<Suc k] = assign ?m k k 0" by simp
  have "assign ?m k k 0 ! a ! a = 0" if "a < Suc k" for a
  proof -
    from that k have "a < n" by simp
    with ih(1) k have "assign ?m k k 0 ! a ! a = (if a = k \<and> a = k then 0 else ?m ! a ! a)"
      by (simp add: assign_nth [of n])
    with that ih(2) show ?thesis by (auto simp add: less_Suc_eq)
  qed
  with ih(1) show ?case unfolding next_m by (simp add: square_assign)
qed

lemma clear_diagonal_square: "square n m \<Longrightarrow> square n (clear_diagonal n m)"
  using clear_diagonal_upto [of n m n] by (simp add: clear_diagonal_def)

lemma clear_diagonal_zero: "square n m \<Longrightarrow> a < n \<Longrightarrow> clear_diagonal n m ! a ! a = 0"
  using clear_diagonal_upto [of n m n] by (simp add: clear_diagonal_def)

lemma mirror_cases:
  assumes sq: "square n m" and i: "i < n" and j: "j < n"
  shows "assign (assign m j i d) i j d ! i ! j = d"
    and "assign (assign m j i d) i j d ! j ! i = d"
    and "\<And>a b. a < n \<Longrightarrow> b < n \<Longrightarrow> \<not> (a = i \<and> b = j) \<Longrightarrow> \<not> (a = j \<and> b = i) \<Longrightarrow>
           assign (assign m j i d) i j d ! a ! b = m ! a ! b"
proof -
  show "assign (assign m j i d) i j d ! i ! j = d"
    using mirror_nth [OF sq i j i j, of d] by simp
  show "assign (assign m j i d) i j d ! j ! i = d"
    using mirror_nth [OF sq i j j i, of d] by simp
  show "assign (assign m j i d) i j d ! a ! b = m ! a ! b"
    if "a < n" "b < n" "\<not> (a = i \<and> b = j)" "\<not> (a = j \<and> b = i)" for a b
    using mirror_nth [OF sq i j that(1,2), of d] that(3,4) by simp
qed

lemma symmetricI:
  assumes "square n m" and "\<forall>a<n. \<forall>b<n. m ! a ! b = m ! b ! a"
  shows "symmetric m"
  using assms by (simp add: symmetric_def square_def list_all_iff)

lemma zero_diagonalI:
  assumes "square n m" and "\<forall>a<n. m ! a ! a = 0"
  shows "zero_diagonal m"
  using assms by (simp add: zero_diagonal_def square_def list_all_iff)

subsection \<open>The format registry and the field table\<close>

lemma find_ew_formats:
  "find (\<lambda>opt. fst opt = f) ew_formats =
     (if f = ''FULL_MATRIX'' then Some (''FULL_MATRIX'', buildFullMatrix)
      else if f = ''UPPER_ROW'' then Some (''UPPER_ROW'', buildUpperRow)
      else if f = ''LOWER_DIAG_ROW'' then Some (''LOWER_DIAG_ROW'', buildLowDiagRow)
      else None)"
  by (auto simp add: ew_formats_def)

lemma map_insert_same: "map_insert m k v k = Some v"
  by (simp add: map_insert_def)

lemma map_insert_other: "k' \<noteq> k \<Longrightarrow> map_insert m k v k' = m k'"
  by (simp add: map_insert_def)

text \<open>
  A valid entry changes the field table by one insertion of the key with the value
  prepared for it.
\<close>

lemma ParseSpecification_Inr:
  assumes "ParseSpecification p inst (key, val) = Inr (p', inst')"
  shows "p' = p\<lparr>entry_map := map_insert (entry_map p) key (entry_map_value key val)\<rparr>"
  using assms
  by (auto simp add: ParseSpecification_def entry_map_value_def Let_def
      split: if_splits sum.splits)

text \<open>The \<^verbatim>\<open>DIMENSION\<close> branch of \<^verbatim>\<open>ParseSpecification\<close>, by what \<^verbatim>\<open>stoi\<close> does.\<close>

lemma ParseSpecification_DIMENSION:
  "ParseSpecification p inst (''DIMENSION'', val) =
     (case stoi val of
        Inl e \<Rightarrow> Inl (Throws e)
      | Inr n \<Rightarrow>
          if n \<le> 0 then Inl (Failed NonPositiveDimension)
          else Inr (p\<lparr>entry_map := map_insert (entry_map p) ''DIMENSION'' (IntValue n)\<rparr>, inst))"
  by (simp add: ParseSpecification_def split: sum.splits)

subsection \<open>The bound on the rounds and the end of the stream\<close>

text \<open>
  A call that has returned within some bound returns the same within every larger one.
\<close>

lemma next_line_mono:
  "next_line k s line = Some x \<Longrightarrow> next_line (k + d) s line = Some x"
proof (induction k arbitrary: s line)
  case 0
  then show ?case by simp
next
  case (Suc k)
  then show ?case by (auto simp add: Let_def split: prod.splits if_splits)
qed

lemma Parse_loop_mono:
  "Parse_loop al k p inst ps line = Some r \<Longrightarrow> Parse_loop al (k + d) p inst ps line = Some r"
proof (induction k arbitrary: p inst ps line)
  case 0
  then show ?case by simp
next
  case (Suc k)
  from Suc.prems obtain s line' where nl: "next_line k (fs p) line = Some (s, line')"
    by (auto split: option.splits)
  then have nl': "next_line (k + d) (fs p) line = Some (s, line')" by (rule next_line_mono)
  show ?case
  proof (cases "line' = ''EOF''")
    case True
    with Suc.prems nl nl' show ?thesis by simp
  next
    case False
    show ?thesis
    proof (cases "Parse_entry al (p\<lparr>fs := s\<rparr>) inst ps line'")
      case (Inl e)
      with Suc.prems nl nl' False show ?thesis by simp
    next
      case (Inr t)
      obtain p' inst' ps' where t: "t = (p', inst', ps')" by (cases t)
      with Suc.prems nl False Inr have "Parse_loop al k p' inst' ps' line' = Some r" by simp
      then have "Parse_loop al (k + d) p' inst' ps' line' = Some r" by (rule Suc.IH)
      with nl' False Inr t show ?thesis by simp
    qed
  qed
qed

lemma Parse_mono:
  assumes "Parse al k p = Some r"
  shows "Parse al (k + d) p = Some r"
proof (cases "is_open (fs p)")
  case False
  with assms show ?thesis by (simp add: Parse_def)
next
  case True
  with assms obtain x where x: "Parse_loop al k p Instance_init True [] = Some x"
    by (auto simp add: Parse_def split: option.splits)
  then have "Parse_loop al (k + d) p Instance_init True [] = Some x" by (rule Parse_loop_mono)
  with assms x True show ?thesis by (simp add: Parse_def)
qed

text \<open>
  Once the stream is not good, \<^verbatim>\<open>getline\<close> leaves the line as it is; a blank line
  then stays blank and the inner loop has no exit.
\<close>

lemma getline_not_good: "\<not> good s \<Longrightarrow> getline s line = (s\<lparr>failbit := True\<rparr>, line)"
  by (simp add: getline_def)

lemma next_line_not_good:
  "\<not> good s \<Longrightarrow> is_blank line \<Longrightarrow> next_line k s line = None"
proof (induction k arbitrary: s)
  case 0
  show ?case by simp
next
  case (Suc k)
  have "\<not> good (s\<lparr>failbit := True\<rparr>)" by (simp add: good_def)
  with Suc show ?case by (simp add: getline_not_good)
qed

text \<open>
  A good stream with nothing left (the last line read ended in a newline): the next
  \<^verbatim>\<open>getline\<close> yields the empty line and sets both bits.
\<close>

lemma next_line_exhausted:
  assumes "good s" and "rdbuf s = []"
  shows "next_line k s line = None"
proof (cases k)
  case 0
  then show ?thesis by simp
next
  case (Suc k')
  have "\<not> good (s\<lparr>rdbuf := [], eofbit := True, failbit := True\<rparr>)"
    by (simp add: good_def)
  then have "next_line k' (s\<lparr>rdbuf := [], eofbit := True, failbit := True\<rparr>) [] = None"
    by (rule next_line_not_good) (simp add: is_blank_def)
  with assms Suc show ?thesis by (simp add: getline_def is_blank_def)
qed

lemma Parse_loop_exhausted:
  "good (fs p) \<Longrightarrow> rdbuf (fs p) = [] \<Longrightarrow> Parse_loop al k p inst ps line = None"
  by (cases k) (simp_all add: next_line_exhausted)

subsection \<open>Pieces of the text\<close>

text \<open>
  What is read is part of what was there: the stream only moves forward, and a line or a
  key is a piece of the text. A word that does not occur in the text of the file does
  not occur in any line or key either.
\<close>

lemma sublist_trans: "sublist a b \<Longrightarrow> sublist b c \<Longrightarrow> sublist a (c :: 'a list)"
  by (rule sublist_order.order_trans)

lemma no_sublist_suffix:
  assumes "\<not> sublist w b" and "suffix c b"
  shows "\<not> sublist w c"
proof
  assume "sublist w c"
  moreover from assms(2) have "sublist c b" by (rule suffix_imp_sublist)
  ultimately have "sublist w b" by (rule sublist_trans)
  with assms(1) show False ..
qed

lemma getline_sub:
  assumes "getline s line = (s', line')"
  shows "suffix (rdbuf s') (rdbuf s) \<and> (line' = line \<or> sublist line' (rdbuf s))"
proof (cases "good s")
  case False
  with assms have "s' = s\<lparr>failbit := True\<rparr>" "line' = line" by (simp_all add: getline_def)
  then show ?thesis by simp
next
  case True
  let ?l = "takeWhile (\<lambda>c. c \<noteq> CHR 0x0A) (rdbuf s)"
  let ?r = "dropWhile (\<lambda>c. c \<noteq> CHR 0x0A) (rdbuf s)"
  have l: "sublist ?l (rdbuf s)" by (rule sublist_takeWhile)
  show ?thesis
  proof (cases ?r)
    case Nil
    with True have "getline s line = (s\<lparr>rdbuf := [], eofbit := True, failbit := (?l = [])\<rparr>, ?l)"
      by (simp add: getline_def Let_def del: dropWhile_eq_Nil_conv takeWhile_eq_all_conv)
    with assms have "rdbuf s' = []" "line' = ?l" by auto
    with l show ?thesis by simp
  next
    case (Cons c rest)
    have "suffix (c # rest) (rdbuf s)" unfolding Cons [symmetric] by (rule suffix_dropWhile)
    then have r: "suffix rest (rdbuf s)" by (rule suffix_ConsD)
    from True Cons have "getline s line = (s\<lparr>rdbuf := rest\<rparr>, ?l)"
      by (simp add: getline_def Let_def)
    with assms have "rdbuf s' = rest" "line' = ?l" by auto
    with l r show ?thesis by simp
  qed
qed

lemma next_line_sub:
  assumes "next_line k s line = Some (s', line')"
    and "\<not> sublist w line" and "\<not> sublist w (rdbuf s)"
  shows "\<not> sublist w line' \<and> \<not> sublist w (rdbuf s')"
  using assms
proof (induction k arbitrary: s line)
  case 0
  then show ?case by simp
next
  case (Suc k)
  obtain s1 line1 where g: "getline s line = (s1, line1)" by (cases "getline s line")
  from getline_sub [OF g]
  have suf: "suffix (rdbuf s1) (rdbuf s)" and ln: "line1 = line \<or> sublist line1 (rdbuf s)"
    by simp_all
  have keep_buf: "\<not> sublist w (rdbuf s1)"
    using Suc.prems(3) suf by (rule no_sublist_suffix)
  have keep_line: "\<not> sublist w line1"
  proof
    assume w: "sublist w line1"
    from ln show False
    proof
      assume "line1 = line"
      with w Suc.prems(2) show False by simp
    next
      assume "sublist line1 (rdbuf s)"
      with w have "sublist w (rdbuf s)" by (rule sublist_trans)
      with Suc.prems(3) show False ..
    qed
  qed
  show ?case
  proof (cases "is_blank line1")
    case True
    with Suc.prems(1) g have "next_line k s1 line1 = Some (s', line')" by simp
    then show ?thesis using keep_line keep_buf by (rule Suc.IH)
  next
    case False
    with Suc.prems(1) g have "s' = s1" "line' = line1" by simp_all
    with keep_line keep_buf show ?thesis by simp
  qed
qed

lemma scan_sign_suffix: "suffix (snd (scan_sign b)) b"
proof (cases b)
  case Nil
  then show ?thesis by (simp add: scan_sign_def)
next
  case (Cons c t)
  have "suffix t (d # t)" for d :: char by (simp add: suffix_ConsI)
  then show ?thesis using Cons by (simp add: scan_sign_def)
qed

lemma extract_int_suffix: "suffix (rdbuf (fst (extract_int s))) (rdbuf s)"
proof -
  let ?b = "dropWhile isspace (rdbuf s)"
  let ?t = "snd (scan_sign ?b)"
  have "suffix (dropWhile isdigit ?t) ?t" by (rule suffix_dropWhile)
  also have "suffix ?t ?b" by (rule scan_sign_suffix)
  also have "suffix ?b (rdbuf s)" by (rule suffix_dropWhile)
  finally have chain: "suffix (dropWhile isdigit ?t) (rdbuf s)" .
  have "rdbuf (fst (extract_int s)) = rdbuf s \<or> rdbuf (fst (extract_int s)) = []
        \<or> rdbuf (fst (extract_int s)) = dropWhile isdigit ?t"
    by (simp add: extract_int_def Let_def split_beta)
  with chain show ?thesis by auto
qed

lemma display_round_suffix:
  assumes "display_round n i st = Inr st'"
  shows "suffix (rdbuf (fst st')) (rdbuf (fst st))"
proof -
  obtain s node x y posm visited where st: "st = (s, node, x, y, posm, visited)"
    by (cases st)
  let ?s1 = "fst (extract_int s)"
  let ?s2 = "fst (extract_int ?s1)"
  let ?s3 = "fst (extract_int ?s2)"
  have "suffix (rdbuf ?s3) (rdbuf ?s2)" by (rule extract_int_suffix)
  also have "suffix (rdbuf ?s2) (rdbuf ?s1)" by (rule extract_int_suffix)
  also have "suffix (rdbuf ?s1) (rdbuf s)" by (rule extract_int_suffix)
  finally have chain: "suffix (rdbuf ?s3) (rdbuf s)" .
  have shape: "display_round n i st = Inr st' \<longrightarrow> fst st' = ?s3"
    unfolding st display_round_def
    by (auto simp add: Let_def split_beta split: option.splits)
  with assms have "fst st' = ?s3" by simp
  with chain st show ?thesis by simp
qed

lemma entry_key_regex_sublist:
  assumes "entry_key_regex line = Some (key, colon, rest)"
  shows "sublist key line"
proof -
  let ?s = "dropWhile (\<lambda>c. \<not> isword c) line"
  from assms have key: "key = takeWhile isword ?s"
    by (simp add: entry_key_regex_def Let_def split: if_splits)
  have "sublist (takeWhile isword ?s) ?s" by (rule sublist_takeWhile)
  moreover have "sublist ?s line" by (rule sublist_dropWhile)
  ultimately have "sublist (takeWhile isword ?s) line" by (rule sublist_trans)
  then show ?thesis unfolding key .
qed

subsection \<open>Parsing a lower-diagonal-row file\<close>

lemma buildLowDiagRow_ten:
  assumes w0: "list_all isspace w0"
    and seps: "separator w1" "separator w2" "separator w3" "separator w4" "separator w5"
      "separator w6" "separator w7" "separator w8" "separator w9"
    and rest: "rest \<noteq> []" "\<not> isdigit (hd rest)"
  shows "buildLowDiagRow
           \<lparr>is_open = b,
            rdbuf = w0 @ ''0'' @ w1 @ ''1'' @ w2 @ ''0'' @ w3 @ ''2'' @ w4 @ ''3'' @ w5 @ ''0''
                       @ w6 @ ''4'' @ w7 @ ''5'' @ w8 @ ''6'' @ w9 @ ''0'' @ rest,
            eofbit = False, failbit = False\<rparr>
           [[a00, a01, a02, a03], [a10, a11, a12, a13], [a20, a21, a22, a23], [a30, a31, a32, a33]]
         = Inr (\<lparr>is_open = b, rdbuf = rest, eofbit = False, failbit = False\<rparr>,
                [[0, 1, 2, 4], [1, 0, 3, 5], [2, 3, 0, 6], [4, 5, 6, 0]])"
proof -
  note facts = seps [THEN separator_facts(1)] seps [THEN separator_facts(2)]
    seps [THEN separator_facts(3)]
  have digits: "isdigit CHR ''0''" "isdigit CHR ''1''" "isdigit CHR ''2''" "isdigit CHR ''3''"
    "isdigit CHR ''4''" "isdigit CHR ''5''" "isdigit CHR ''6''"
    by (simp_all add: isdigit_def)
  have vals: "digit_value CHR ''0'' = 0" "digit_value CHR ''1'' = 1" "digit_value CHR ''2'' = 2"
    "digit_value CHR ''3'' = 3" "digit_value CHR ''4'' = 4" "digit_value CHR ''5'' = 5"
    "digit_value CHR ''6'' = 6"
    by (simp_all add: digit_value_def)
  show ?thesis
    using w0 facts rest
    by (simp add: buildLowDiagRow_def read_Dist_digit digits vals assign_def upt_rec)
qed

text \<open>
  C1. A file that declares \<^verbatim>\<open>DIMENSION: 4\<close> and
  \<^verbatim>\<open>EDGE_WEIGHT_FORMAT: LOWER_DIAG_ROW\<close> and whose edge-weight section holds the ten
  numbers \<^verbatim>\<open>0 1 0 2 3 0 4 5 6 0\<close>, separated by any white space (blanks, tabs, line
  breaks), parses successfully, whatever the fresh matrix holds, and the distance matrix
  of the instance is \<^verbatim>\<open>[[0,1,2,4],[1,0,3,5],[2,3,0,6],[4,5,6,0]]\<close>: the ten values
  fill the triangle \<open>j \<le> i\<close> row by row, each mirrored into \<open>(i,j)\<close> and \<open>(j,i)\<close>,
  the diagonal included.
\<close>

theorem Parse_LOWER_DIAG_ROW:
  assumes w0: "list_all isspace w0"
    and seps: "list_all separator [w1, w2, w3, w4, w5, w6, w7, w8, w9]"
  shows "Parse al (6 + fuel)
           (InstanceParser_Open (Some (
              ''DIMENSION: 4'' @ [CHR 0x0A] @
              ''EDGE_WEIGHT_FORMAT: LOWER_DIAG_ROW'' @ [CHR 0x0A] @
              ''EDGE_WEIGHT_SECTION'' @ [CHR 0x0A] @
              spaced [w0, w1, w2, w3, w4, w5, w6, w7, w8, w9]
                [''0'', ''1'', ''0'', ''2'', ''3'', ''0'', ''4'', ''5'', ''6'', ''0''] @ [CHR 0x0A] @
              ''EOF'' @ [CHR 0x0A])))
         = Some (Success (Instance_init
             \<lparr>dmatrix := Some [[0, 1, 2, 4], [1, 0, 3, 5], [2, 3, 0, 6], [4, 5, 6, 0]]\<rparr>))"
proof -
  let ?rest = "[CHR 0x0A] @ ''EOF'' @ [CHR 0x0A]"
  let ?payload = "w0 @ ''0'' @ w1 @ ''1'' @ w2 @ ''0'' @ w3 @ ''2'' @ w4 @ ''3'' @ w5 @ ''0''
                       @ w6 @ ''4'' @ w7 @ ''5'' @ w8 @ ''6'' @ w9 @ ''0'' @ ?rest"
  from seps have s: "separator w1" "separator w2" "separator w3" "separator w4" "separator w5"
      "separator w6" "separator w7" "separator w8" "separator w9"
    by simp_all
  have rest: "?rest \<noteq> []" "\<not> isdigit (hd ?rest)" by (simp_all add: isdigit_def)
  note build = buildLowDiagRow_ten [OF w0 s rest]
  have payload: "spaced [w0, w1, w2, w3, w4, w5, w6, w7, w8, w9]
                [''0'', ''1'', ''0'', ''2'', ''3'', ''0'', ''4'', ''5'', ''6'', ''0''] @ ?rest = ?payload"
    by (simp add: spaced_def)
  have "Parse al (Suc (Suc (Suc (Suc (Suc (Suc 0))))))
           (InstanceParser_Open (Some (
              ''DIMENSION: 4'' @ [CHR 0x0A] @
              ''EDGE_WEIGHT_FORMAT: LOWER_DIAG_ROW'' @ [CHR 0x0A] @
              ''EDGE_WEIGHT_SECTION'' @ [CHR 0x0A] @ ?payload)))
         = Some (Success (Instance_init
             \<lparr>dmatrix := Some [[0, 1, 2, 4], [1, 0, 3, 5], [2, 3, 0, 6], [4, 5, 6, 0]]\<rparr>))"
    using build
    by (simp add: Parse_def InstanceParser_Open_def ifstream_open_def Instance_init_def
        getline_def good_def is_blank_def WHITESPACE_def Parse_entry_def entry_key_regex_def
        isword_def rtrim_def ParseSpecification_def ParseData_def ParseEdgeWeights_def
        GetEntryValue_int_def GetEntryValue_string_def map_insert_def find_ew_formats
        stoi_def scan_sign_def isspace_def isdigit_def signed_value_def decimal_def
        digit_value_def INT_MAX_def INT_MIN_def
        clear_diagonal_def SquareMatrix_Get_def Matrix_Get_def assign_def upt_rec)
  then have "Parse al 6
           (InstanceParser_Open (Some (
              ''DIMENSION: 4'' @ [CHR 0x0A] @
              ''EDGE_WEIGHT_FORMAT: LOWER_DIAG_ROW'' @ [CHR 0x0A] @
              ''EDGE_WEIGHT_SECTION'' @ [CHR 0x0A] @ ?payload)))
         = Some (Success (Instance_init
             \<lparr>dmatrix := Some [[0, 1, 2, 4], [1, 0, 3, 5], [2, 3, 0, 6], [4, 5, 6, 0]]\<rparr>))"
    by (simp add: eval_nat_numeral)
  then show ?thesis
    unfolding payload [symmetric] by (simp add: Parse_mono)
qed

theorem Parse_LOWER_DIAG_ROW_witness:
  "list_all isspace []
   \<and> list_all separator ['' '', '' '', '' '', '' '', '' '', '' '', '' '', '' '', '' '']
   \<and> Parse zero_allocation 6 (InstanceParser_Open (Some lower_diag_row_file))
       = Some (Success (Instance_init
           \<lparr>dmatrix := Some [[0, 1, 2, 4], [1, 0, 3, 5], [2, 3, 0, 6], [4, 5, 6, 0]]\<rparr>))
   \<and> list_all isspace '' ''
   \<and> list_all separator
        [[CHR 0x0A, CHR '' ''], '' '', [CHR 0x0A, CHR '' ''], '' '', '' '',
         [CHR 0x0A, CHR '' ''], '' '', '' '', '' '']
   \<and> Parse zero_allocation 6 (InstanceParser_Open (Some lower_diag_row_lines_file))
       = Some (Success (Instance_init
           \<lparr>dmatrix := Some [[0, 1, 2, 4], [1, 0, 3, 5], [2, 3, 0, 6], [4, 5, 6, 0]]\<rparr>))"
proof -
  have a: "list_all isspace []" by simp
  have b: "list_all separator ['' '', '' '', '' '', '' '', '' '', '' '', '' '', '' '', '' '']"
    by (simp add: separator_def isspace_def)
  have c: "list_all isspace '' ''" by (simp add: isspace_def)
  have d: "list_all separator
        [[CHR 0x0A, CHR '' ''], '' '', [CHR 0x0A, CHR '' ''], '' '', '' '',
         [CHR 0x0A, CHR '' ''], '' '', '' '', '' '']"
    by (simp add: separator_def isspace_def)
  from Parse_LOWER_DIAG_ROW [OF a b, of zero_allocation 0]
    Parse_LOWER_DIAG_ROW [OF c d, of zero_allocation 0] a b c d
  show ?thesis
    by (simp add: spaced_def lower_diag_row_file_def lower_diag_row_lines_file_def)
qed

subsection \<open>Symmetry and diagonal of the distance matrix\<close>

text \<open>
  The inner loops of the two builders that mirror. In row \<open>i\<close> the upper-row loop
  writes the cells \<open>(i, j)\<close> and \<open>(j, i)\<close> for \<open>j > i\<close> and leaves the diagonal
  alone; the lower-diagonal-row loop writes them for \<open>j \<le> i\<close>.
\<close>

lemma upper_row_inner:
  fixes sm sm' :: "ifstream \<times> matrix"
  assumes run: "for_each [Suc i..<n] body sm = Inr sm'"
    and body: "\<And>j u v. body j u = Inr v \<Longrightarrow> \<exists>d. snd v = assign (assign (snd u) j i d) i j d"
    and i: "i < n"
    and sq: "square n (snd sm)"
    and sym: "\<forall>a<i. \<forall>b<n. snd sm ! a ! b = snd sm ! b ! a"
  shows "square n (snd sm')
         \<and> (\<forall>a<Suc i. \<forall>b<n. snd sm' ! a ! b = snd sm' ! b ! a)
         \<and> (\<forall>a<n. snd sm' ! a ! a = snd sm ! a ! a)"
proof -
  define Q where "Q j t \<longleftrightarrow>
      square n (snd t)
      \<and> (\<forall>a<i. \<forall>b<n. snd t ! a ! b = snd t ! b ! a)
      \<and> (\<forall>b<j. snd t ! i ! b = snd t ! b ! i)
      \<and> (\<forall>a<n. snd t ! a ! a = snd sm ! a ! a)" for j :: nat and t :: "ifstream \<times> matrix"
  have "Q n sm'"
    using run
  proof (rule for_each_upt_invariant [where P = Q])
    show "Suc i \<le> n" using i by simp
    have "snd sm ! i ! b = snd sm ! b ! i" if "b < Suc i" for b
    proof (cases "b = i")
      case True
      then show ?thesis by simp
    next
      case False
      with that have "b < i" by simp
      with sym i show ?thesis by metis
    qed
    with sq sym show "Q (Suc i) sm" unfolding Q_def by blast
  next
    fix j u v
    assume j: "Suc i \<le> j" "j < n" and Qu: "Q j u" and step: "body j u = Inr v"
    from body [OF step] obtain d where v: "snd v = assign (assign (snd u) j i d) i j d" ..
    from Qu have squ: "square n (snd u)"
      and symu: "\<And>a b. a < i \<Longrightarrow> b < n \<Longrightarrow> snd u ! a ! b = snd u ! b ! a"
      and rowu: "\<And>b. b < j \<Longrightarrow> snd u ! i ! b = snd u ! b ! i"
      and diagu: "\<And>a. a < n \<Longrightarrow> snd u ! a ! a = snd sm ! a ! a"
      unfolding Q_def by blast+
    note mc = mirror_cases [OF squ i j(2), where d = d, folded v]
    have ij: "i < j" using j(1) by simp
    have 1: "square n (snd v)" unfolding v using squ by (rule square_mirror)
    have 2: "snd v ! a ! b = snd v ! b ! a" if "a < i" "b < n" for a b
    proof -
      from that i have an: "a < n" by simp
      have "snd v ! a ! b = snd u ! a ! b" using mc(3) [OF an that(2)] that(1) ij by simp
      moreover have "snd v ! b ! a = snd u ! b ! a" using mc(3) [OF that(2) an] that(1) ij by simp
      ultimately show ?thesis using symu [OF that] by simp
    qed
    have 3: "snd v ! i ! b = snd v ! b ! i" if "b < Suc j" for b
    proof (cases "b = j")
      case True
      then show ?thesis using mc(1,2) by simp
    next
      case False
      with that have bj: "b < j" by simp
      with j(2) have bn: "b < n" by simp
      have "snd v ! i ! b = snd u ! i ! b" using mc(3) [OF i bn] False ij by simp
      moreover have "snd v ! b ! i = snd u ! b ! i" using mc(3) [OF bn i] False ij by simp
      ultimately show ?thesis using rowu [OF bj] by simp
    qed
    have 4: "snd v ! a ! a = snd sm ! a ! a" if "a < n" for a
    proof -
      have "snd v ! a ! a = snd u ! a ! a" using mc(3) [OF that that] ij by simp
      with diagu [OF that] show ?thesis by simp
    qed
    from 1 2 3 4 show "Q (Suc j) v" unfolding Q_def by blast
  qed
  then have sq': "square n (snd sm')"
    and old: "\<And>a b. a < i \<Longrightarrow> b < n \<Longrightarrow> snd sm' ! a ! b = snd sm' ! b ! a"
    and row: "\<And>b. b < n \<Longrightarrow> snd sm' ! i ! b = snd sm' ! b ! i"
    and diag: "\<forall>a<n. snd sm' ! a ! a = snd sm ! a ! a"
    unfolding Q_def by blast+
  have "snd sm' ! a ! b = snd sm' ! b ! a" if "a < Suc i" "b < n" for a b
  proof (cases "a = i")
    case True
    then show ?thesis using row [OF that(2)] by simp
  next
    case False
    with that(1) have "a < i" by simp
    then show ?thesis using that(2) by (rule old)
  qed
  with sq' diag show ?thesis by blast
qed

lemma low_diag_row_inner:
  fixes sm sm' :: "ifstream \<times> matrix"
  assumes run: "for_each [0..<Suc i] body sm = Inr sm'"
    and body: "\<And>j u v. body j u = Inr v \<Longrightarrow> \<exists>d. snd v = assign (assign (snd u) j i d) i j d"
    and i: "i < n"
    and sq: "square n (snd sm)"
    and sym: "\<forall>a<i. \<forall>b<i. snd sm ! a ! b = snd sm ! b ! a"
  shows "square n (snd sm')
         \<and> (\<forall>a<Suc i. \<forall>b<Suc i. snd sm' ! a ! b = snd sm' ! b ! a)"
proof -
  define Q where "Q j t \<longleftrightarrow>
      square n (snd t)
      \<and> (\<forall>a<i. \<forall>b<i. snd t ! a ! b = snd t ! b ! a)
      \<and> (\<forall>b<j. snd t ! i ! b = snd t ! b ! i)" for j :: nat and t :: "ifstream \<times> matrix"
  have "Q (Suc i) sm'"
    using run
  proof (rule for_each_upt_invariant [where P = Q])
    show "0 \<le> Suc i" by simp
    from sq sym show "Q 0 sm" unfolding Q_def by simp
  next
    fix j u v
    assume j: "0 \<le> j" "j < Suc i" and Qu: "Q j u" and step: "body j u = Inr v"
    from body [OF step] obtain d where v: "snd v = assign (assign (snd u) j i d) i j d" ..
    from Qu have squ: "square n (snd u)"
      and symu: "\<And>a b. a < i \<Longrightarrow> b < i \<Longrightarrow> snd u ! a ! b = snd u ! b ! a"
      and rowu: "\<And>b. b < j \<Longrightarrow> snd u ! i ! b = snd u ! b ! i"
      unfolding Q_def by blast+
    have jn: "j < n" using j(2) i by simp
    have ji: "j \<le> i" using j(2) by simp
    note mc = mirror_cases [OF squ i jn, where d = d, folded v]
    have 1: "square n (snd v)" unfolding v using squ by (rule square_mirror)
    have 2: "snd v ! a ! b = snd v ! b ! a" if "a < i" "b < i" for a b
    proof -
      from that i have an: "a < n" and bn: "b < n" by simp_all
      have "snd v ! a ! b = snd u ! a ! b" using mc(3) [OF an bn] that by simp
      moreover have "snd v ! b ! a = snd u ! b ! a" using mc(3) [OF bn an] that by simp
      ultimately show ?thesis using symu [OF that] by simp
    qed
    have 3: "snd v ! i ! b = snd v ! b ! i" if "b < Suc j" for b
    proof (cases "b = j")
      case True
      then show ?thesis using mc(1,2) by simp
    next
      case False
      with that have bj: "b < j" by simp
      with jn have bn: "b < n" by simp
      from bj ji have bi: "b \<noteq> i" by simp
      have "snd v ! i ! b = snd u ! i ! b" using mc(3) [OF i bn] False bi by simp
      moreover have "snd v ! b ! i = snd u ! b ! i" using mc(3) [OF bn i] False bi by simp
      ultimately show ?thesis using rowu [OF bj] by simp
    qed
    from 1 2 3 show "Q (Suc j) v" unfolding Q_def by blast
  qed
  then have sq': "square n (snd sm')"
    and old: "\<And>a b. a < i \<Longrightarrow> b < i \<Longrightarrow> snd sm' ! a ! b = snd sm' ! b ! a"
    and row: "\<And>b. b < Suc i \<Longrightarrow> snd sm' ! i ! b = snd sm' ! b ! i"
    unfolding Q_def by blast+
  have "snd sm' ! a ! b = snd sm' ! b ! a" if "a < Suc i" "b < Suc i" for a b
  proof (cases "a = i")
    case True
    then show ?thesis using row [OF that(2)] by simp
  next
    case a: False
    show ?thesis
    proof (cases "b = i")
      case True
      then show ?thesis using row [OF that(1)] by simp
    next
      case False
      with a that have "a < i" "b < i" by simp_all
      then show ?thesis by (rule old)
    qed
  qed
  with sq' show ?thesis by blast
qed

text \<open>The builders as a whole.\<close>

lemma buildUpperRow_symmetric:
  assumes run: "buildUpperRow s m = Inr (s', m')" and sq: "square n m"
  shows "square n m' \<and> (\<forall>a<n. \<forall>b<n. m' ! a ! b = m' ! b ! a) \<and> (\<forall>a<n. m' ! a ! a = m ! a ! a)"
proof -
  define P where "P i t \<longleftrightarrow>
      square n (snd t)
      \<and> (\<forall>a<i. \<forall>b<n. snd t ! a ! b = snd t ! b ! a)
      \<and> (\<forall>a<n. snd t ! a ! a = m ! a ! a)" for i :: nat and t :: "ifstream \<times> matrix"
  from sq have len: "length m = n" by (simp add: square_def)
  let ?body = "\<lambda>i. for_each [Suc i..<n] (\<lambda>j (s, m).
             case read_Dist s of
               None \<Rightarrow> Inl (Failed (MatrixParseError i j))
             | Some (s', dij) \<Rightarrow> Inr (s', assign (assign m j i dij) i j dij))"
  from run have loop: "for_each [0..<n] ?body (s, m) = Inr (s', m')"
    by (simp add: buildUpperRow_def len)
  have "P n (s', m')"
    using loop
  proof (rule for_each_upt_invariant [where P = P])
    show "0 \<le> n" by simp
    from sq show "P 0 (s, m)" unfolding P_def by simp
  next
    fix i u v
    assume i: "0 \<le> i" "i < n" and Pu: "P i u" and step: "?body i u = Inr v"
    from Pu have squ: "square n (snd u)"
      and symu: "\<forall>a<i. \<forall>b<n. snd u ! a ! b = snd u ! b ! a"
      and diagu: "\<And>a. a < n \<Longrightarrow> snd u ! a ! a = m ! a ! a"
      unfolding P_def by blast+
    have "square n (snd v)
         \<and> (\<forall>a<Suc i. \<forall>b<n. snd v ! a ! b = snd v ! b ! a)
         \<and> (\<forall>a<n. snd v ! a ! a = snd u ! a ! a)"
      using step
    proof (rule upper_row_inner)
      fix j and x y :: "ifstream \<times> matrix"
      assume "(case x of (s, m) \<Rightarrow>
             case read_Dist s of
               None \<Rightarrow> Inl (Failed (MatrixParseError i j))
             | Some (s', dij) \<Rightarrow> Inr (s', assign (assign m j i dij) i j dij)) = Inr y"
      then show "\<exists>d. snd y = assign (assign (snd x) j i d) i j d"
        by (auto split: prod.splits option.splits)
    qed (use i squ symu in simp_all)
    then have a: "square n (snd v)"
      and b: "\<forall>a<Suc i. \<forall>b<n. snd v ! a ! b = snd v ! b ! a"
      and c: "\<And>a. a < n \<Longrightarrow> snd v ! a ! a = snd u ! a ! a"
      by blast+
    have d: "\<forall>a<n. snd v ! a ! a = m ! a ! a"
      using c diagu by simp
    from a b d show "P (Suc i) v" unfolding P_def by (intro conjI)
  qed
  then show ?thesis unfolding P_def snd_conv by (intro conjI) blast+
qed

lemma buildLowDiagRow_symmetric:
  assumes run: "buildLowDiagRow s m = Inr (s', m')" and sq: "square n m"
  shows "square n m' \<and> (\<forall>a<n. \<forall>b<n. m' ! a ! b = m' ! b ! a)"
proof -
  define P where "P i t \<longleftrightarrow>
      square n (snd t)
      \<and> (\<forall>a<i. \<forall>b<i. snd t ! a ! b = snd t ! b ! a)" for i :: nat and t :: "ifstream \<times> matrix"
  from sq have len: "length m = n" by (simp add: square_def)
  let ?body = "\<lambda>i. for_each [0..<Suc i] (\<lambda>j (s, m).
             case read_Dist s of
               None \<Rightarrow> Inl (Failed (MatrixParseError i j))
             | Some (s', dij) \<Rightarrow> Inr (s', assign (assign m j i dij) i j dij))"
  from run have loop: "for_each [0..<n] ?body (s, m) = Inr (s', m')"
    by (simp add: buildLowDiagRow_def len)
  have "P n (s', m')"
    using loop
  proof (rule for_each_upt_invariant [where P = P])
    show "0 \<le> n" by simp
    from sq show "P 0 (s, m)" unfolding P_def by simp
  next
    fix i u v
    assume i: "0 \<le> i" "i < n" and Pu: "P i u" and step: "?body i u = Inr v"
    from Pu have squ: "square n (snd u)"
      and symu: "\<forall>a<i. \<forall>b<i. snd u ! a ! b = snd u ! b ! a"
      unfolding P_def by blast+
    have "square n (snd v)
         \<and> (\<forall>a<Suc i. \<forall>b<Suc i. snd v ! a ! b = snd v ! b ! a)"
      using step
    proof (rule low_diag_row_inner)
      fix j and x y :: "ifstream \<times> matrix"
      assume "(case x of (s, m) \<Rightarrow>
             case read_Dist s of
               None \<Rightarrow> Inl (Failed (MatrixParseError i j))
             | Some (s', dij) \<Rightarrow> Inr (s', assign (assign m j i dij) i j dij)) = Inr y"
      then show "\<exists>d. snd y = assign (assign (snd x) j i d) i j d"
        by (auto split: prod.splits option.splits)
    qed (use i squ symu in simp_all)
    then show "P (Suc i) v" unfolding P_def .
  qed
  then show ?thesis unfolding P_def snd_conv .
qed

lemma buildFullMatrix_square:
  assumes run: "buildFullMatrix s m = Inr (s', m')" and sq: "square n m"
  shows "square n m'"
proof -
  from sq have len: "length m = n" by (simp add: square_def)
  let ?inner = "\<lambda>i j (s, m).
             case read_Dist s of
               None \<Rightarrow> Inl (Failed (MatrixParseError i j))
             | Some (s', d) \<Rightarrow> Inr (s', assign m i j d)"
  from run have loop: "for_each [0..<n] (\<lambda>i. for_each [0..<n] (?inner i)) (s, m) = Inr (s', m')"
    by (simp add: buildFullMatrix_def len)
  have "square n (snd (s', m'))"
    using loop
  proof (rule for_each_upt_invariant [where P = "\<lambda>i t. square n (snd t)"])
    show "0 \<le> n" by simp
    from sq show "square n (snd (s, m))" by simp
  next
    fix i and u v :: "ifstream \<times> matrix"
    assume squ: "square n (snd u)" and step: "for_each [0..<n] (?inner i) u = Inr v"
    show "square n (snd v)"
      using step
    proof (rule for_each_upt_invariant [where P = "\<lambda>j t. square n (snd t)"])
      show "0 \<le> n" by simp
      from squ show "square n (snd u)" .
    next
      fix j and x y :: "ifstream \<times> matrix"
      assume "square n (snd x)" and "?inner i j x = Inr y"
      then show "square n (snd y)"
        by (auto simp add: square_assign split: prod.splits option.splits)
    qed
  qed
  then show ?thesis by simp
qed

lemma ParseEdgeWeights_built:
  assumes ok: "ParseEdgeWeights al p inst = Inr (p', inst')"
    and dim: "GetEntryValue_int p ''DIMENSION'' = Some n"
    and fmt: "GetEntryValue_string p ''EDGE_WEIGHT_FORMAT'' = Some f"
    and dm: "dm = clear_diagonal (nat n) (SquareMatrix_Get (dist_cells al) (nat n))"
  shows "\<exists>s m. inst' = inst\<lparr>dmatrix := Some m\<rparr>
           \<and> ((f = ''FULL_MATRIX'' \<and> buildFullMatrix (fs p) dm = Inr (s, m))
              \<or> (f = ''UPPER_ROW'' \<and> buildUpperRow (fs p) dm = Inr (s, m))
              \<or> (f = ''LOWER_DIAG_ROW'' \<and> buildLowDiagRow (fs p) dm = Inr (s, m)))"
proof -
  have pe: "ParseEdgeWeights al p inst =
      (case find (\<lambda>opt. fst opt = f) ew_formats of
         None \<Rightarrow> Inl (Failed (UnsupportedFormat f))
       | Some builder \<Rightarrow>
          (case snd builder (fs p) dm of
             Inl e \<Rightarrow> Inl e
           | Inr (s, dm') \<Rightarrow> Inr (p\<lparr>fs := s\<rparr>, inst\<lparr>dmatrix := Some dm'\<rparr>)))"
    unfolding ParseEdgeWeights_def dim fmt dm by simp
  have res: "\<exists>s m. r = Inr (s, m) \<and> inst' = inst\<lparr>dmatrix := Some m\<rparr>"
    if "(case r of Inl e \<Rightarrow> Inl e
         | Inr (s, dm') \<Rightarrow> Inr (p\<lparr>fs := s\<rparr>, inst\<lparr>dmatrix := Some dm'\<rparr>)) = Inr (p', inst')"
    for r :: "stop + ifstream \<times> matrix"
    using that by (cases r) auto
  consider "f = ''FULL_MATRIX''" | "f = ''UPPER_ROW''" | "f = ''LOWER_DIAG_ROW''"
    | "f \<noteq> ''FULL_MATRIX''" "f \<noteq> ''UPPER_ROW''" "f \<noteq> ''LOWER_DIAG_ROW''"
    by blast
  then show ?thesis
  proof cases
    case 1
    with ok pe have "(case buildFullMatrix (fs p) dm of Inl e \<Rightarrow> Inl e
         | Inr (s, dm') \<Rightarrow> Inr (p\<lparr>fs := s\<rparr>, inst\<lparr>dmatrix := Some dm'\<rparr>)) = Inr (p', inst')"
      by (simp add: find_ew_formats)
    from res [OF this] 1 show ?thesis by blast
  next
    case 2
    with ok pe have "(case buildUpperRow (fs p) dm of Inl e \<Rightarrow> Inl e
         | Inr (s, dm') \<Rightarrow> Inr (p\<lparr>fs := s\<rparr>, inst\<lparr>dmatrix := Some dm'\<rparr>)) = Inr (p', inst')"
      by (simp add: find_ew_formats)
    from res [OF this] 2 show ?thesis by blast
  next
    case 3
    with ok pe have "(case buildLowDiagRow (fs p) dm of Inl e \<Rightarrow> Inl e
         | Inr (s, dm') \<Rightarrow> Inr (p\<lparr>fs := s\<rparr>, inst\<lparr>dmatrix := Some dm'\<rparr>)) = Inr (p', inst')"
      by (simp add: find_ew_formats)
    from res [OF this] 3 show ?thesis by blast
  next
    case 4
    with ok pe show ?thesis by (simp add: find_ew_formats)
  qed
qed

text \<open>
  C2, as the code has it. When the edge-weight section succeeds for dimension \<open>n\<close>, the
  distance matrix it stores has \<open>n\<close> rows of \<open>n\<close> cells. In format \<^verbatim>\<open>UPPER_ROW\<close>
  it is symmetric and its diagonal is zero; in format \<^verbatim>\<open>LOWER_DIAG_ROW\<close> it is
  symmetric.
\<close>

theorem ParseEdgeWeights_matrix:
  assumes ok: "ParseEdgeWeights al p inst = Inr (p', inst')"
    and dim: "GetEntryValue_int p ''DIMENSION'' = Some n"
    and fmt: "GetEntryValue_string p ''EDGE_WEIGHT_FORMAT'' = Some f"
  shows "\<exists>m. dmatrix inst' = Some m \<and> square (nat n) m
             \<and> (f = ''UPPER_ROW'' \<longrightarrow> symmetric m \<and> zero_diagonal m)
             \<and> (f = ''LOWER_DIAG_ROW'' \<longrightarrow> symmetric m)"
proof -
  define dm where "dm = clear_diagonal (nat n) (SquareMatrix_Get (dist_cells al) (nat n))"
  have sq: "square (nat n) dm"
    unfolding dm_def by (rule clear_diagonal_square) (rule square_Get)
  have zero: "dm ! a ! a = 0" if "a < nat n" for a
    unfolding dm_def using square_Get that by (rule clear_diagonal_zero)
  from ParseEdgeWeights_built [OF ok dim fmt dm_def] obtain s m
    where inst': "inst' = inst\<lparr>dmatrix := Some m\<rparr>"
      and built: "(f = ''FULL_MATRIX'' \<and> buildFullMatrix (fs p) dm = Inr (s, m))
              \<or> (f = ''UPPER_ROW'' \<and> buildUpperRow (fs p) dm = Inr (s, m))
              \<or> (f = ''LOWER_DIAG_ROW'' \<and> buildLowDiagRow (fs p) dm = Inr (s, m))"
    by blast
  have square: "square (nat n) m"
    using built buildFullMatrix_square [OF _ sq] buildUpperRow_symmetric [OF _ sq]
      buildLowDiagRow_symmetric [OF _ sq]
    by blast
  have upper: "symmetric m \<and> zero_diagonal m" if "f = ''UPPER_ROW''"
  proof -
    from that built have "buildUpperRow (fs p) dm = Inr (s, m)" by simp
    from buildUpperRow_symmetric [OF this sq]
    have sym: "\<forall>a<nat n. \<forall>b<nat n. m ! a ! b = m ! b ! a"
      and diag: "\<And>a. a < nat n \<Longrightarrow> m ! a ! a = dm ! a ! a" by blast+
    from diag zero have "\<forall>a<nat n. m ! a ! a = 0" by simp
    with square sym show ?thesis by (blast intro: symmetricI zero_diagonalI)
  qed
  have lower: "symmetric m" if "f = ''LOWER_DIAG_ROW''"
  proof -
    from that built have "buildLowDiagRow (fs p) dm = Inr (s, m)" by simp
    from buildLowDiagRow_symmetric [OF this sq] square show ?thesis
      by (blast intro: symmetricI)
  qed
  from inst' square upper lower show ?thesis by simp
qed

theorem ParseEdgeWeights_matrix_witness:
  "ParseEdgeWeights zero_allocation upper_row_3_parser Instance_init
     = Inr (after_payload upper_row_3_parser,
            Instance_init\<lparr>dmatrix := Some [[0, 1, 2], [1, 0, 3], [2, 3, 0]]\<rparr>)
   \<and> GetEntryValue_int upper_row_3_parser ''DIMENSION'' = Some 3
   \<and> GetEntryValue_string upper_row_3_parser ''EDGE_WEIGHT_FORMAT'' = Some ''UPPER_ROW''
   \<and> square 3 [[0, 1, 2], [1, 0, 3], [2, 3, 0]]
   \<and> symmetric [[0, 1, 2], [1, 0, 3], [2, 3, 0]]
   \<and> zero_diagonal [[0, 1, 2], [1, 0, 3], [2, 3, 0]]
   \<and> ParseEdgeWeights zero_allocation low_diag_row_2_parser Instance_init
     = Inr (after_payload low_diag_row_2_parser,
            Instance_init\<lparr>dmatrix := Some [[5, 1], [1, 7]]\<rparr>)
   \<and> GetEntryValue_int low_diag_row_2_parser ''DIMENSION'' = Some 2
   \<and> GetEntryValue_string low_diag_row_2_parser ''EDGE_WEIGHT_FORMAT'' = Some ''LOWER_DIAG_ROW''
   \<and> square 2 [[5, 1], [1, 7]]
   \<and> symmetric [[5, 1], [1, 7]]"
proof -
  have u1: "GetEntryValue_int upper_row_3_parser ''DIMENSION'' = Some 3"
    by (simp add: GetEntryValue_int_def upper_row_3_parser_def)
  have u2: "GetEntryValue_string upper_row_3_parser ''EDGE_WEIGHT_FORMAT'' = Some ''UPPER_ROW''"
    by (simp add: GetEntryValue_string_def upper_row_3_parser_def)
  have u3: "ParseEdgeWeights zero_allocation upper_row_3_parser Instance_init
     = Inr (after_payload upper_row_3_parser,
            Instance_init\<lparr>dmatrix := Some [[0, 1, 2], [1, 0, 3], [2, 3, 0]]\<rparr>)"
  proof -
    have "buildUpperRow (fs upper_row_3_parser)
            (clear_diagonal 3 (SquareMatrix_Get (dist_cells zero_allocation) 3))
          = Inr (fs (after_payload upper_row_3_parser), [[0, 1, 2], [1, 0, 3], [2, 3, 0]])"
      by code_simp
    then show ?thesis
      unfolding ParseEdgeWeights_def u1 u2
      by (simp add: find_ew_formats after_payload_def)
  qed
  have l1: "GetEntryValue_int low_diag_row_2_parser ''DIMENSION'' = Some 2"
    by (simp add: GetEntryValue_int_def low_diag_row_2_parser_def)
  have l2: "GetEntryValue_string low_diag_row_2_parser ''EDGE_WEIGHT_FORMAT'' = Some ''LOWER_DIAG_ROW''"
    by (simp add: GetEntryValue_string_def low_diag_row_2_parser_def)
  have l3: "ParseEdgeWeights zero_allocation low_diag_row_2_parser Instance_init
     = Inr (after_payload low_diag_row_2_parser,
            Instance_init\<lparr>dmatrix := Some [[5, 1], [1, 7]]\<rparr>)"
  proof -
    have "buildLowDiagRow (fs low_diag_row_2_parser)
            (clear_diagonal 2 (SquareMatrix_Get (dist_cells zero_allocation) 2))
          = Inr (fs (after_payload low_diag_row_2_parser), [[5, 1], [1, 7]])"
      by code_simp
    then show ?thesis
      unfolding ParseEdgeWeights_def l1 l2
      by (simp add: find_ew_formats after_payload_def)
  qed
  have sq3: "square 3 [[0, 1, 2], [1, 0, 3], [2, 3, 0]]" by code_simp
  have sq2: "square 2 [[5, 1], [1, 7]]" by code_simp
  from ParseEdgeWeights_matrix [OF u3 u1 u2] ParseEdgeWeights_matrix [OF l3 l1 l2]
    u1 u2 u3 l1 l2 l3 sq3 sq2
  show ?thesis by simp
qed

text \<open>
  C2 as stated (symmetric with a zero diagonal in all three formats) fails: a
  \<^verbatim>\<open>FULL_MATRIX\<close> file with the rows \<^verbatim>\<open>0 1\<close> and \<^verbatim>\<open>2 3\<close> parses to that matrix,
  neither symmetric nor zero on the diagonal, and a \<^verbatim>\<open>LOWER_DIAG_ROW\<close> file with
  \<^verbatim>\<open>5\<close>, \<^verbatim>\<open>1 7\<close> parses to a matrix with the diagonal 5, 7.
\<close>

theorem symmetric_zero_diagonal_counterexample:
  "Parse zero_allocation 6 (InstanceParser_Open (Some full_matrix_file))
     = Some (Success (Instance_init\<lparr>dmatrix := Some [[0, 1], [2, 3]]\<rparr>))
   \<and> \<not> symmetric [[0, 1], [2, 3]]
   \<and> \<not> zero_diagonal [[0, 1], [2, 3]]
   \<and> Parse zero_allocation 6 (InstanceParser_Open (Some low_diag_row_nonzero_file))
     = Some (Success (Instance_init\<lparr>dmatrix := Some [[5, 1], [1, 7]]\<rparr>))
   \<and> \<not> zero_diagonal [[5, 1], [1, 7]]"
proof -
  have a: "Parse zero_allocation 6 (InstanceParser_Open (Some full_matrix_file))
     = Some (Success (Instance_init\<lparr>dmatrix := Some [[0, 1], [2, 3]]\<rparr>))"
    unfolding full_matrix_file_def by code_simp
  have b: "\<not> symmetric [[0, 1], [2, 3]]" by code_simp
  have c: "\<not> zero_diagonal [[0, 1], [2, 3]]" by code_simp
  have d: "Parse zero_allocation 6 (InstanceParser_Open (Some low_diag_row_nonzero_file))
     = Some (Success (Instance_init\<lparr>dmatrix := Some [[5, 1], [1, 7]]\<rparr>))"
    unfolding low_diag_row_nonzero_file_def by code_simp
  have e: "\<not> zero_diagonal [[5, 1], [1, 7]]" by code_simp
  from a b c d e show ?thesis by simp
qed

subsection \<open>Repeated header keys\<close>

text \<open>
  In the loop of \<^verbatim>\<open>Parse\<close>, a line with a separator met while
  \<^verbatim>\<open>parsing_specifications\<close> holds goes to \<^verbatim>\<open>ParseSpecification\<close>, and the parser it
  returns is the parser of the next round.
\<close>

lemma Parse_loop_header:
  assumes "next_line k (fs p) line = Some (s, line')" and "line' \<noteq> ''EOF''"
    and "entry_key_regex line' = Some (key, colon, rest)" and "colon \<noteq> []"
    and "ParseSpecification (p\<lparr>fs := s\<rparr>) inst (key, rtrim rest) = Inr (p', inst')"
  shows "Parse_loop al (Suc k) p inst True line = Parse_loop al k p' inst' True line'"
  using assms by (simp add: Parse_entry_def)

lemma ParseSpecification_all_append:
  "ParseSpecification_all p inst (xs @ ys) =
     (case ParseSpecification_all p inst xs of
        Inl e \<Rightarrow> Inl e
      | Inr (p1, inst1) \<Rightarrow> ParseSpecification_all p1 inst1 ys)"
  by (induction xs arbitrary: p inst) (auto split: sum.splits)

lemma ParseSpecification_entry_map:
  assumes "ParseSpecification p inst (key, val) = Inr (p', inst')"
  shows "entry_map p' = (entry_map p)(key \<mapsto> entry_map_value key val)"
  using ParseSpecification_Inr [OF assms] by (simp add: map_insert_def)

text \<open>
  The field table after a run of valid entries: at each key the value of the last entry
  with that key, and what the table had before at a key without an entry.
\<close>

lemma ParseSpecification_all_entry_map:
  assumes "ParseSpecification_all p inst es = Inr (p', inst')"
  shows "entry_map p' k =
           (case map_of (rev es) k of
              Some v \<Rightarrow> Some (entry_map_value k v)
            | None \<Rightarrow> entry_map p k)"
  using assms
proof (induction es arbitrary: p inst)
  case Nil
  then show ?case by simp
next
  case (Cons e es)
  obtain key val where e: "e = (key, val)" by (cases e)
  from Cons.prems obtain p1 inst1
    where first: "ParseSpecification p inst (key, val) = Inr (p1, inst1)"
      and rest: "ParseSpecification_all p1 inst1 es = Inr (p', inst')"
    unfolding e by (auto split: sum.splits)
  have p1: "entry_map p1 = (entry_map p)(key \<mapsto> entry_map_value key val)"
    using first by (rule ParseSpecification_entry_map)
  have "entry_map p' k =
           (case map_of (rev es) k of
              Some v \<Rightarrow> Some (entry_map_value k v)
            | None \<Rightarrow> entry_map p1 k)"
    using rest by (rule Cons.IH)
  then show ?case
    unfolding e p1 by (auto simp add: map_add_def split: option.splits)
qed

lemma ParseSpecification_all_valid:
  assumes "ParseSpecification_all p inst (xs @ [e] @ ys) = Inr r"
  shows "\<exists>q instq r'. ParseSpecification q instq e = Inr r'"
proof -
  from assms obtain q instq where "ParseSpecification_all q instq ([e] @ ys) = Inr r"
    unfolding ParseSpecification_all_append [of p inst xs] by (auto split: sum.splits)
  then show ?thesis by (auto split: sum.splits)
qed

text \<open>
  C3. When the header entries of a parse are all valid and two of them have the same
  key, with no entry of that key after the later one, the field table afterwards holds
  at that key the value of the later entry: \<^verbatim>\<open>GetEntryValue\<close> gives the later string,
  and for \<^verbatim>\<open>DIMENSION\<close> the number \<^verbatim>\<open>stoi\<close> made of it. The entries before, between
  and after the two are arbitrary. This rests on the insertion overwriting, as the
  specification says of the field table.
\<close>

theorem ParseSpecification_last_write_wins:
  assumes run: "ParseSpecification_all p inst (es1 @ [(key, v1)] @ es2 @ [(key, v2)] @ es3)
                  = Inr (p', inst')"
    and later: "list_all (\<lambda>e. fst e \<noteq> key) es3"
  shows "entry_map p' key = Some (entry_map_value key v2)
         \<and> (key \<noteq> ''DIMENSION'' \<longrightarrow> GetEntryValue_string p' key = Some v2)
         \<and> (key = ''DIMENSION'' \<longrightarrow>
              (\<exists>n. stoi v2 = Inr n \<and> GetEntryValue_int p' key = Some n))"
proof -
  have none: "map_of (rev es3) key = None"
    using later by (auto simp add: map_of_eq_None_iff list_all_iff)
  have "map_of (rev (es1 @ [(key, v1)] @ es2 @ [(key, v2)] @ es3)) key = Some v2"
    using none by (simp add: map_add_def)
  with ParseSpecification_all_entry_map [OF run, of key]
  have table: "entry_map p' key = Some (entry_map_value key v2)" by simp
  have string: "GetEntryValue_string p' key = Some v2" if "key \<noteq> ''DIMENSION''"
    using that table by (simp add: GetEntryValue_string_def entry_map_value_def)
  have number: "\<exists>n. stoi v2 = Inr n \<and> GetEntryValue_int p' key = Some n" if "key = ''DIMENSION''"
  proof -
    have "ParseSpecification_all p inst ((es1 @ [(key, v1)] @ es2) @ [(key, v2)] @ es3)
            = Inr (p', inst')"
      using run by simp
    from ParseSpecification_all_valid [OF this] obtain q instq r'
      where "ParseSpecification q instq (key, v2) = Inr r'" by blast
    with that obtain n where n: "stoi v2 = Inr n"
      by (auto simp add: ParseSpecification_DIMENSION split: sum.splits)
    with table that show ?thesis
      by (simp add: GetEntryValue_int_def entry_map_value_def)
  qed
  from table string number show ?thesis by blast
qed

text \<open>
  The entries \<^verbatim>\<open>DIMENSION: 3\<close>, \<^verbatim>\<open>NAME: x\<close>, \<^verbatim>\<open>DIMENSION: 5\<close>, \<^verbatim>\<open>TYPE: TSP\<close> leave the
  dimension 5 in the table, and the entries \<^verbatim>\<open>COMMENT: a\<close>, \<^verbatim>\<open>COMMENT: b\<close> leave the
  comment \<^verbatim>\<open>b\<close>. A file with \<^verbatim>\<open>DIMENSION: 1\<close>, then \<^verbatim>\<open>DIMENSION: 3\<close>, and the three
  numbers of an upper-row section parses to the matrix of dimension 3.
\<close>

theorem ParseSpecification_last_write_wins_witness:
  "ParseSpecification_all closed_parser Instance_init
      ([] @ [(''DIMENSION'', ''3'')] @ [(''NAME'', ''x'')] @ [(''DIMENSION'', ''5'')]
         @ [(''TYPE'', ''TSP'')])
     = Inr (repeated_dimension_parser, Instance_init\<lparr>name := ''x''\<rparr>)
   \<and> list_all (\<lambda>e. fst e \<noteq> ''DIMENSION'') [(''TYPE'', ''TSP'')]
   \<and> stoi ''5'' = Inr 5
   \<and> entry_map repeated_dimension_parser ''DIMENSION'' = Some (IntValue 5)
   \<and> GetEntryValue_int repeated_dimension_parser ''DIMENSION'' = Some 5
   \<and> ParseSpecification_all closed_parser Instance_init
        ([] @ [(''COMMENT'', ''a'')] @ [] @ [(''COMMENT'', ''b'')] @ [])
       = Inr (repeated_comment_parser, Instance_init\<lparr>comment := ''b''\<rparr>)
   \<and> GetEntryValue_string repeated_comment_parser ''COMMENT'' = Some ''b''
   \<and> Parse zero_allocation 7 (InstanceParser_Open (Some repeated_dimension_file))
       = Some (Success (Instance_init\<lparr>dmatrix := Some [[0, 1, 2], [1, 0, 3], [2, 3, 0]]\<rparr>))"
proof -
  have a: "ParseSpecification_all closed_parser Instance_init
      ([] @ [(''DIMENSION'', ''3'')] @ [(''NAME'', ''x'')] @ [(''DIMENSION'', ''5'')]
         @ [(''TYPE'', ''TSP'')])
     = Inr (repeated_dimension_parser, Instance_init\<lparr>name := ''x''\<rparr>)"
    by (simp add: ParseSpecification_def stoi_def scan_sign_def isspace_def isdigit_def
        signed_value_def decimal_def digit_value_def INT_MAX_def INT_MIN_def
        repeated_dimension_parser_def closed_parser_def InstanceParser_Open_def map_insert_def)
  have b: "list_all (\<lambda>e. fst e \<noteq> ''DIMENSION'') [(''TYPE'', ''TSP'')]" by simp
  have c: "stoi ''5'' = Inr 5"
    by (simp add: stoi_def scan_sign_def isspace_def isdigit_def
        signed_value_def decimal_def digit_value_def INT_MAX_def INT_MIN_def)
  have d: "Parse zero_allocation 7 (InstanceParser_Open (Some repeated_dimension_file))
       = Some (Success (Instance_init\<lparr>dmatrix := Some [[0, 1, 2], [1, 0, 3], [2, 3, 0]]\<rparr>))"
    unfolding repeated_dimension_file_def by code_simp
  have e: "ParseSpecification_all closed_parser Instance_init
        ([] @ [(''COMMENT'', ''a'')] @ [] @ [(''COMMENT'', ''b'')] @ [])
       = Inr (repeated_comment_parser, Instance_init\<lparr>comment := ''b''\<rparr>)"
    by (simp add: ParseSpecification_def repeated_comment_parser_def closed_parser_def
        InstanceParser_Open_def map_insert_def)
  have f: "list_all (\<lambda>e. fst e \<noteq> ''COMMENT'') []" by simp
  from ParseSpecification_last_write_wins [OF a b] ParseSpecification_last_write_wins [OF e f]
    a b c d e
  show ?thesis by (simp add: entry_map_value_def GetEntryValue_int_def)
qed

subsection \<open>A value of \<^verbatim>\<open>DIMENSION\<close> without a digit\<close>

text \<open>
  C4. A header entry \<^verbatim>\<open>DIMENSION\<close> whose value is not numeric should make the parse
  return no instance with a diagnostic. On the file \<^verbatim>\<open>DIMENSION: abc\<close> the call of
  \<^verbatim>\<open>stoi\<close> throws \<^verbatim>\<open>std::invalid_argument\<close>; the only handler in \<^verbatim>\<open>Parse\<close> is for
  \<^verbatim>\<open>std::regex_error\<close>, so the exception leaves \<^verbatim>\<open>Parse\<close>.
\<close>

theorem Parse_non_numeric_dimension_uncaught:
  "Parse al (Suc (Suc fuel)) (InstanceParser_Open (Some non_numeric_dimension_file))
     = Some (Uncaught invalid_argument)"
  by (simp add: non_numeric_dimension_file_def Parse_def InstanceParser_Open_def
      ifstream_open_def getline_def good_def is_blank_def WHITESPACE_def Parse_entry_def
      entry_key_regex_def isword_def rtrim_def ParseSpecification_def stoi_def scan_sign_def
      isspace_def isdigit_def abort_def)

subsection \<open>The end of the stream before the sentinel\<close>

text \<open>
  C5. A finite input that ends before a line \<^verbatim>\<open>EOF\<close> should make \<^verbatim>\<open>Parse\<close> return
  with an error. On the file that consists of the line \<^verbatim>\<open>NAME: x\<close> and its newline,
  \<^verbatim>\<open>Parse\<close> has not returned after any number of rounds: it does not return.
\<close>

theorem Parse_no_sentinel_never_returns:
  "Parse al fuel (InstanceParser_Open (Some no_sentinel_file)) = None"
proof -
  let ?p = "InstanceParser_Open (Some no_sentinel_file)"
  have "Parse_loop al fuel ?p Instance_init True [] = None"
  proof (cases fuel)
    case 0
    then show ?thesis by simp
  next
    case (Suc k)
    show ?thesis
    proof (cases k)
      case 0
      with Suc show ?thesis by simp
    next
      case (Suc k')
      have "Parse_loop al (Suc (Suc k')) ?p Instance_init True [] = None"
        by (subst Parse_loop.simps)
          (simp add: no_sentinel_file_def InstanceParser_Open_def ifstream_open_def
            getline_def good_def is_blank_def WHITESPACE_def Parse_entry_def
            entry_key_regex_def isword_def rtrim_def ParseSpecification_def
            Parse_loop_exhausted
            del: Parse_loop.simps)
      with Suc \<open>fuel = Suc k\<close> show ?thesis by simp
    qed
  qed
  then show ?thesis by (simp add: Parse_def InstanceParser_Open_def ifstream_open_def)
qed

subsection \<open>A node number 0 in the display data\<close>

text \<open>
  One round of the display loop once the node number \<open>k\<close> is read: too large an index
  and an index seen before are invalid nodes, a negative index reaches the access to
  \<^verbatim>\<open>visited\<close>.
\<close>

lemma display_round_node:
  assumes "extract_int s = (s1, Some k)" and "k \<noteq> INT_MIN"
  shows "display_round n i (s, node, x, y, posm, visited) =
           (if k - 1 \<ge> n then Inl (Failed InvalidNode)
            else if k - 1 < 0 then Inl (Undefined OutOfBounds)
            else if visited ! nat (k - 1) then Inl (Failed InvalidNode)
            else (case (stored (snd (extract_int s1)) x,
                        stored (snd (extract_int (fst (extract_int s1)))) y) of
                    (Some xv, Some yv) \<Rightarrow>
                      Inr (fst (extract_int (fst (extract_int s1))), Some (k - 1),
                           Some xv, Some yv,
                           assign (assign posm (nat (k - 1)) 0 xv) (nat (k - 1)) 1 yv,
                           visited[nat (k - 1) := True])
                  | _ \<Rightarrow> Inl (Undefined IndeterminateValue)))"
  using assms
  by (auto simp add: display_round_def stored_def Let_def split: prod.splits option.splits)

text \<open>
  C6. A node index outside \<open>[0, n)\<close> should fail with the invalid-node diagnostic
  before \<^verbatim>\<open>visited\<close> is accessed. On a display section of dimension 2 whose first
  triple is \<^verbatim>\<open>0 1 1\<close> the index is \<open>-1\<close> after \<^verbatim>\<open>node--\<close>; the test
  \<^verbatim>\<open>node >= n\<close> lets it through and \<^verbatim>\<open>visited[node]\<close> reads outside the vector.
\<close>

theorem Parse_node_zero_out_of_bounds:
  "Parse al (5 + fuel) (InstanceParser_Open (Some node_zero_file))
     = Some (UndefinedBehaviour OutOfBounds)"
proof -
  have "Parse al 5 (InstanceParser_Open (Some node_zero_file))
          = Some (UndefinedBehaviour OutOfBounds)"
    unfolding node_zero_file_def by code_simp
  then show ?thesis by (rule Parse_mono)
qed

subsection \<open>The shape of a line\<close>

text \<open>
  The search finds a match exactly when the line has a character of the class; the key is
  the first maximal run of such characters, wherever it starts.
\<close>

lemma entry_key_regex_no_word:
  "list_all (\<lambda>c. \<not> isword c) line \<Longrightarrow> entry_key_regex line = None"
  by (simp add: entry_key_regex_def list_all_iff)

lemma entry_key_regex_shape:
  assumes pre: "list_all (\<lambda>c. \<not> isword c) pre"
    and key: "key \<noteq> []" "list_all isword key"
    and r: "r = [] \<or> \<not> isword (hd r)"
  shows "entry_key_regex (pre @ key @ r) =
           Some (key,
                 if take 2 r = '': '' then '': '' else [],
                 takeWhile (\<lambda>c. c \<noteq> CHR 0x0A \<and> c \<noteq> CHR 0x0D)
                   (dropWhile (\<lambda>c. c = CHR '' '' \<or> c = CHR 0x09)
                      (drop (length (if take 2 r = '': '' then '': '' else [])) r)))"
proof -
  from key obtain k ks where k: "key = k # ks" "isword k" by (cases key) auto
  have "key @ r = [] \<or> \<not> \<not> isword (hd (key @ r))" using k by simp
  with pre have s: "dropWhile (\<lambda>c. \<not> isword c) (pre @ key @ r) = key @ r"
    by (rule dropWhile_run)
  have t: "takeWhile isword (key @ r) = key" using key(2) r by (rule takeWhile_run)
  have d: "dropWhile isword (key @ r) = r" using key(2) r by (rule dropWhile_run)
  show ?thesis
    using key(1) by (simp add: entry_key_regex_def s t d Let_def)
qed

text \<open>
  C7, as the code has it. Let \<open>pre\<close> have no character of \<^verbatim>\<open>[a-zA-Z0-9_]\<close> and
  \<open>key\<close> be a non-empty run of such characters. A line without any such character
  (\<open>pre\<close> alone) fails as a malformed line that carries the raw text. A line
  \<open>pre\<close>, \<open>key\<close>, colon, blank, \<open>rest\<close> is a header entry with that key and the
  right-trimmed value, whatever \<open>pre\<close> is; once a data section has started it fails as a
  specification after data. A line \<open>pre\<close>, \<open>key\<close>, \<open>r\<close> where \<open>r\<close> neither begins
  with colon and blank nor continues the run is a data marker with that key, whatever
  \<open>pre\<close> and \<open>r\<close> are.
\<close>

theorem Parse_entry_shape:
  assumes "list_all (\<lambda>c. \<not> isword c) pre" and "key \<noteq> []" and "list_all isword key"
  shows "Parse_entry al p inst ps pre = Inl (ParsingError MalformedLine pre)
       \<and> Parse_entry al p inst True (pre @ key @ '': '' @ rest) =
           (case ParseSpecification p inst (key, header_value rest) of
              Inl e \<Rightarrow> Inl (abort e (pre @ key @ '': '' @ rest))
            | Inr (p', inst') \<Rightarrow> Inr (p', inst', True))
       \<and> Parse_entry al p inst False (pre @ key @ '': '' @ rest) =
           Inl (ParsingError SpecificationAfterData (pre @ key @ '': '' @ rest))
       \<and> (take 2 r \<noteq> '': '' \<and> (r = [] \<or> \<not> isword (hd r)) \<longrightarrow>
            Parse_entry al p inst ps (pre @ key @ r) =
              (case ParseData al p inst key of
                 Inl e \<Rightarrow> Inl (abort e (pre @ key @ r))
               | Inr (p', inst') \<Rightarrow> Inr (p', inst', False)))"
proof -
  have colon: "'': '' @ rest = [] \<or> \<not> isword (hd ('': '' @ rest))"
    by (simp add: isword_def)
  have header: "entry_key_regex (pre @ key @ '': '' @ rest) =
      Some (key, '': '',
            takeWhile (\<lambda>c. c \<noteq> CHR 0x0A \<and> c \<noteq> CHR 0x0D)
              (dropWhile (\<lambda>c. c = CHR '' '' \<or> c = CHR 0x09) rest))"
    using entry_key_regex_shape [OF assms colon] by simp
  have malformed: "Parse_entry al p inst ps pre = Inl (ParsingError MalformedLine pre)"
    using assms(1) by (simp add: Parse_entry_def entry_key_regex_no_word)
  have spec: "Parse_entry al p inst True (pre @ key @ '': '' @ rest) =
           (case ParseSpecification p inst (key, header_value rest) of
              Inl e \<Rightarrow> Inl (abort e (pre @ key @ '': '' @ rest))
            | Inr (p', inst') \<Rightarrow> Inr (p', inst', True))"
    using header by (simp add: Parse_entry_def header_value_def split: sum.splits)
  have after: "Parse_entry al p inst False (pre @ key @ '': '' @ rest) =
           Inl (ParsingError SpecificationAfterData (pre @ key @ '': '' @ rest))"
    using header by (simp add: Parse_entry_def)
  have marker: "Parse_entry al p inst ps (pre @ key @ r) =
              (case ParseData al p inst key of
                 Inl e \<Rightarrow> Inl (abort e (pre @ key @ r))
               | Inr (p', inst') \<Rightarrow> Inr (p', inst', False))"
    if "take 2 r \<noteq> '': ''" and "r = [] \<or> \<not> isword (hd r)"
    using entry_key_regex_shape [OF assms that(2)] that(1)
    by (simp add: Parse_entry_def)
  from malformed spec after marker show ?thesis by blast
qed

theorem Parse_entry_shape_witness:
  "list_all (\<lambda>c. \<not> isword c) ''- '' \<and> ''NAME'' \<noteq> [] \<and> list_all isword ''NAME''
   \<and> take 2 '':x'' \<noteq> '': '' \<and> \<not> isword (hd '':x'')
   \<and> Parse_entry zero_allocation closed_parser Instance_init True ''- ''
       = Inl (ParsingError MalformedLine ''- '')
   \<and> Parse_entry zero_allocation closed_parser Instance_init True ''- NAME: x  ''
       = Inr (named_parser, Instance_init\<lparr>name := ''x''\<rparr>, True)
   \<and> Parse_entry zero_allocation closed_parser Instance_init False ''- NAME: x  ''
       = Inl (ParsingError SpecificationAfterData ''- NAME: x  '')
   \<and> Parse_entry zero_allocation closed_parser Instance_init True ''- NAME:x''
       = Inl (ParsingError (UnsupportedField ''NAME'') ''- NAME:x'')"
proof -
  have a: "list_all (\<lambda>c. \<not> isword c) ''- ''" by (simp add: isword_def)
  have b: "list_all isword ''NAME''" by (simp add: isword_def)
  have c: "take 2 '':x'' \<noteq> '': ''" by simp
  have d: "\<not> isword (hd '':x'')" by (simp add: isword_def)
  have v: "header_value ''x  '' = ''x''"
    by (simp add: header_value_def rtrim_def WHITESPACE_def)
  have s: "ParseSpecification closed_parser Instance_init (''NAME'', ''x'')
             = Inr (named_parser, Instance_init\<lparr>name := ''x''\<rparr>)"
    by (simp add: ParseSpecification_def named_parser_def closed_parser_def
        InstanceParser_Open_def map_insert_def)
  have m: "ParseData zero_allocation closed_parser Instance_init ''NAME''
             = Inl (Failed (UnsupportedField ''NAME''))"
    by (simp add: ParseData_def)
  from Parse_entry_shape [of "''- ''" "''NAME''" zero_allocation closed_parser Instance_init
      True "''x  ''" "'':x''", OF a _ b] a b c d v s m
  show ?thesis by (simp add: abort_def)
qed

text \<open>
  C7 as stated (a line of neither shape is malformed) fails on both of its examples: a
  header line preceded by a blank is accepted as a header entry, and \<^verbatim>\<open>NAME:x\<close>, a
  key followed by a colon without a blank, is a data marker that fails as an unsupported
  field, not as a malformed line.
\<close>

theorem malformed_line_counterexample:
  "Parse_entry zero_allocation closed_parser Instance_init True '' NAME: x''
       = Inr (named_parser, Instance_init\<lparr>name := ''x''\<rparr>, True)
   \<and> Parse_entry zero_allocation closed_parser Instance_init True ''NAME:x''
       = Inl (ParsingError (UnsupportedField ''NAME'') ''NAME:x'')
   \<and> ParsingError (UnsupportedField ''NAME'') ''NAME:x'' \<noteq> ParsingError MalformedLine ''NAME:x''"
  by (simp add: Parse_entry_def entry_key_regex_def isword_def rtrim_def WHITESPACE_def
      ParseSpecification_def ParseData_def abort_def named_parser_def closed_parser_def
      InstanceParser_Open_def map_insert_def)

subsection \<open>The sentinel without a distance matrix\<close>

text \<open>
  Header entries and the display section leave the distance matrix of the instance as
  it is.
\<close>

lemma ParseDisplayData_keeps:
  assumes "ParseDisplayData al p inst = Inr (p', inst')"
  shows "dmatrix inst' = dmatrix inst \<and> suffix (rdbuf (fs p')) (rdbuf (fs p))"
proof -
  from assms obtain n where n: "GetEntryValue_int p ''DIMENSION'' = Some n"
    by (auto simp add: ParseDisplayData_def split: option.splits)
  let ?st = "(fs p, None, None, None, Matrix_Get (pos_cells al) (nat n) 2,
              replicate (nat n) False) :: display_state"
  from assms n obtain st'
    where run: "for_each [0..<nat n] (display_round n) ?st = Inr st'"
      and res: "p' = p\<lparr>fs := fst st'\<rparr>" "dmatrix inst' = dmatrix inst"
    by (auto simp add: ParseDisplayData_def split: option.splits if_splits sum.splits)
  have "suffix (rdbuf (fst st')) (rdbuf (fs p))"
    using run
  proof (rule for_each_upt_invariant [where P = "\<lambda>i t. suffix (rdbuf (fst t)) (rdbuf (fs p))"])
    show "0 \<le> nat n" by simp
    show "suffix (rdbuf (fst ?st)) (rdbuf (fs p))" by simp
  next
    fix i and u v :: display_state
    assume u: "suffix (rdbuf (fst u)) (rdbuf (fs p))" and "display_round n i u = Inr v"
    then have "suffix (rdbuf (fst v)) (rdbuf (fst u))" by (simp add: display_round_suffix)
    then show "suffix (rdbuf (fst v)) (rdbuf (fs p))" using u by (rule suffix_order.trans)
  qed
  with res show ?thesis by simp
qed

lemma ParseSpecification_keeps:
  assumes "ParseSpecification p inst entry = Inr (p', inst')"
  shows "dmatrix inst' = dmatrix inst \<and> fs p' = fs p"
  using assms
  by (cases entry) (auto simp add: ParseSpecification_def Let_def split: if_splits sum.splits)

lemma Parse_entry_keeps:
  assumes ok: "Parse_entry al p inst ps line = Inr (p', inst', ps')"
    and line: "\<not> sublist ''EDGE_WEIGHT_SECTION'' line"
    and buf: "\<not> sublist ''EDGE_WEIGHT_SECTION'' (rdbuf (fs p))"
  shows "dmatrix inst' = dmatrix inst \<and> \<not> sublist ''EDGE_WEIGHT_SECTION'' (rdbuf (fs p'))"
proof -
  from ok obtain key colon rest where m: "entry_key_regex line = Some (key, colon, rest)"
    by (auto simp add: Parse_entry_def split: option.splits)
  from entry_key_regex_sublist [OF m] line have key: "key \<noteq> ''EDGE_WEIGHT_SECTION''"
    by auto
  show ?thesis
  proof (cases "colon = []")
    case True
    with ok m key have "ParseDisplayData al p inst = Inr (p', inst')"
      by (auto simp add: Parse_entry_def ParseData_def split: sum.splits if_splits)
    from ParseDisplayData_keeps [OF this] buf show ?thesis
      using no_sublist_suffix by blast
  next
    case False
    with ok m have "ParseSpecification p inst (key, rtrim rest) = Inr (p', inst')"
      by (auto simp add: Parse_entry_def split: sum.splits if_splits)
    from ParseSpecification_keeps [OF this] buf show ?thesis by simp
  qed
qed

lemma Parse_loop_keeps:
  assumes "Parse_loop al k p inst ps line = Some (Inr inst')"
    and "\<not> sublist ''EDGE_WEIGHT_SECTION'' line"
    and "\<not> sublist ''EDGE_WEIGHT_SECTION'' (rdbuf (fs p))"
  shows "dmatrix inst' = dmatrix inst"
  using assms
proof (induction k arbitrary: p inst ps line)
  case 0
  then show ?case by simp
next
  case (Suc k)
  from Suc.prems(1) obtain s line1 where nl: "next_line k (fs p) line = Some (s, line1)"
    by (auto split: option.splits)
  from next_line_sub [OF nl Suc.prems(2,3)]
  have line1: "\<not> sublist ''EDGE_WEIGHT_SECTION'' line1"
    and s: "\<not> sublist ''EDGE_WEIGHT_SECTION'' (rdbuf (fs (p\<lparr>fs := s\<rparr>)))"
    by simp_all
  show ?case
  proof (cases "line1 = ''EOF''")
    case True
    with Suc.prems(1) nl show ?thesis by simp
  next
    case False
    with Suc.prems(1) nl obtain p1 inst1 ps1
      where entry: "Parse_entry al (p\<lparr>fs := s\<rparr>) inst ps line1 = Inr (p1, inst1, ps1)"
        and rest: "Parse_loop al k p1 inst1 ps1 line1 = Some (Inr inst')"
      by (auto split: sum.splits)
    from Parse_entry_keeps [OF entry line1 s]
    have same: "dmatrix inst1 = dmatrix inst"
      and buf1: "\<not> sublist ''EDGE_WEIGHT_SECTION'' (rdbuf (fs p1))"
      by simp_all
    from Suc.IH [OF rest line1 buf1] same show ?thesis by simp
  qed
qed

text \<open>
  C8. When the loop of \<^verbatim>\<open>Parse\<close> reaches the line \<^verbatim>\<open>EOF\<close> and the instance has no
  distance matrix at that point, \<^verbatim>\<open>Parse\<close> returns no instance and reports the missing
  distance matrix, although no line failed. That is so in particular whenever the text
  of the file does not contain \<^verbatim>\<open>EDGE_WEIGHT_SECTION\<close>: only that section stores a
  distance matrix.
\<close>

theorem Parse_MissingDistanceMatrix:
  assumes "is_open (fs p)"
    and "Parse_loop al fuel p Instance_init True [] = Some (Inr inst)"
  shows "(dmatrix inst = None \<longrightarrow> Parse al fuel p = Some MissingDistanceMatrix)
         \<and> (\<not> sublist ''EDGE_WEIGHT_SECTION'' (rdbuf (fs p)) \<longrightarrow> dmatrix inst = None)"
proof -
  have "dmatrix inst = None" if "\<not> sublist ''EDGE_WEIGHT_SECTION'' (rdbuf (fs p))"
  proof -
    have "\<not> sublist ''EDGE_WEIGHT_SECTION'' []" by simp
    from Parse_loop_keeps [OF assms(2) this that] show ?thesis
      by (simp add: Instance_init_def)
  qed
  with assms show ?thesis by (simp add: Parse_def)
qed

theorem Parse_MissingDistanceMatrix_witness:
  "is_open (fs (InstanceParser_Open (Some header_only_file)))
   \<and> Parse_loop zero_allocation 4 (InstanceParser_Open (Some header_only_file))
         Instance_init True [] = Some (Inr header_only_instance)
   \<and> dmatrix header_only_instance = None
   \<and> \<not> sublist ''EDGE_WEIGHT_SECTION'' (rdbuf (fs (InstanceParser_Open (Some header_only_file))))
   \<and> Parse zero_allocation 4 (InstanceParser_Open (Some header_only_file))
       = Some MissingDistanceMatrix"
proof -
  have opened: "is_open (fs (InstanceParser_Open (Some header_only_file)))"
    by (simp add: InstanceParser_Open_def ifstream_open_def)
  have loop: "Parse_loop zero_allocation 4 (InstanceParser_Open (Some header_only_file))
                Instance_init True [] = Some (Inr header_only_instance)"
    unfolding header_only_file_def header_only_instance_def by code_simp
  have none: "dmatrix header_only_instance = None"
    by (simp add: header_only_instance_def Instance_init_def)
  have absent: "\<not> sublist ''EDGE_WEIGHT_SECTION''
                 (rdbuf (fs (InstanceParser_Open (Some header_only_file))))"
    unfolding header_only_file_def by code_simp
  from Parse_MissingDistanceMatrix [OF opened loop] opened loop none absent
  show ?thesis by simp
qed

subsection \<open>A \<^verbatim>\<open>DIMENSION\<close> value with trailing characters\<close>

text \<open>
  C9, as the code has it. A \<^verbatim>\<open>DIMENSION\<close> value that starts with a run of digits
  whose value is positive and at most \<open>2\<^sup>3\<^sup>1 - 1\<close>, followed by a character that is
  not a digit, is valid: the trailing characters are dropped and the number is inserted
  into the field table, where it is the value of \<^verbatim>\<open>DIMENSION\<close>.
\<close>

theorem ParseSpecification_DIMENSION_prefix:
  assumes "ds \<noteq> []" and "list_all isdigit ds"
    and "rest \<noteq> []" and "\<not> isdigit (hd rest)"
    and "0 < decimal ds" and "decimal ds \<le> INT_MAX"
  shows "ParseSpecification p inst (''DIMENSION'', ds @ rest)
           = Inr (p\<lparr>entry_map := map_insert (entry_map p) ''DIMENSION'' (IntValue (decimal ds))\<rparr>,
                  inst)
         \<and> GetEntryValue_int
             (p\<lparr>entry_map := map_insert (entry_map p) ''DIMENSION'' (IntValue (decimal ds))\<rparr>)
             ''DIMENSION'' = Some (decimal ds)"
proof -
  have "stoi (ds @ rest) = Inr (decimal ds)"
    using stoi_digits [of ds rest] assms by simp
  with assms(5) show ?thesis
    by (simp add: ParseSpecification_def GetEntryValue_int_def map_insert_def)
qed

theorem ParseSpecification_DIMENSION_prefix_witness:
  "''3'' \<noteq> [] \<and> list_all isdigit ''3'' \<and> ''abc'' \<noteq> [] \<and> \<not> isdigit (hd ''abc'')
   \<and> 0 < decimal ''3'' \<and> decimal ''3'' \<le> INT_MAX \<and> decimal ''3'' = 3
   \<and> ParseSpecification closed_parser Instance_init (''DIMENSION'', ''3abc'')
       = Inr (dimension_3_parser, Instance_init)
   \<and> GetEntryValue_int dimension_3_parser ''DIMENSION'' = Some 3"
proof -
  have a: "list_all isdigit ''3''" by (simp add: isdigit_def)
  have b: "\<not> isdigit (hd ''abc'')" by (simp add: isdigit_def)
  have c: "decimal ''3'' = 3" by (simp add: decimal_def digit_value_def)
  have d: "0 < decimal ''3''" "decimal ''3'' \<le> INT_MAX" by (simp_all add: c INT_MAX_def)
  have e: "closed_parser\<lparr>entry_map := map_insert (entry_map closed_parser) ''DIMENSION'' (IntValue 3)\<rparr>
            = dimension_3_parser"
    by (simp add: dimension_3_parser_def closed_parser_def InstanceParser_Open_def map_insert_def)
  from ParseSpecification_DIMENSION_prefix [of "''3''" "''abc''", OF _ a _ b d, of closed_parser Instance_init]
    a b c d e
  show ?thesis by simp
qed

text \<open>
  C9 as stated (every positive decimal prefix is accepted and stored) fails: the prefix
  of \<^verbatim>\<open>99999999999abc\<close> is a positive decimal number that does not fit an \<^verbatim>\<open>int\<close>;
  \<^verbatim>\<open>stoi\<close> throws \<^verbatim>\<open>std::out_of_range\<close>, nothing is stored, and the exception leaves
  \<^verbatim>\<open>Parse\<close>.
\<close>

theorem DIMENSION_prefix_counterexample:
  "list_all isdigit ''99999999999'' \<and> \<not> isdigit (hd ''abc'') \<and> 0 < decimal ''99999999999''
   \<and> ParseSpecification closed_parser Instance_init (''DIMENSION'', ''99999999999abc'')
       = Inl (Throws out_of_range)
   \<and> Parse zero_allocation 3 (InstanceParser_Open (Some overlong_dimension_file))
       = Some (Uncaught out_of_range)"
proof -
  have a: "list_all isdigit ''99999999999'' \<and> \<not> isdigit (hd ''abc'')
           \<and> 0 < decimal ''99999999999''
           \<and> ParseSpecification closed_parser Instance_init (''DIMENSION'', ''99999999999abc'')
               = Inl (Throws out_of_range)"
    by (simp add: ParseSpecification_def stoi_def scan_sign_def isspace_def isdigit_def
        signed_value_def decimal_def digit_value_def INT_MAX_def INT_MIN_def)
  have b: "Parse zero_allocation 3 (InstanceParser_Open (Some overlong_dimension_file))
             = Some (Uncaught out_of_range)"
    unfolding overlong_dimension_file_def by code_simp
  from a b show ?thesis by simp
qed

subsection \<open>Dimension 1 in upper-row format\<close>

text \<open>
  C10. With \<^verbatim>\<open>DIMENSION\<close> 1 and \<^verbatim>\<open>EDGE_WEIGHT_FORMAT\<close> \<^verbatim>\<open>UPPER_ROW\<close> the edge-weight
  section succeeds on every stream without reading from it (the parser, and so its
  stream, is unchanged), and the distance matrix is \<^verbatim>\<open>[[0]]\<close> whatever the fresh matrix
  held: the zero is the one \<^verbatim>\<open>ParseEdgeWeights\<close> writes on the diagonal.
\<close>

theorem ParseEdgeWeights_UPPER_ROW_dimension_1:
  assumes "GetEntryValue_int p ''DIMENSION'' = Some 1"
    and "GetEntryValue_string p ''EDGE_WEIGHT_FORMAT'' = Some ''UPPER_ROW''"
  shows "ParseEdgeWeights al p inst = Inr (p, inst\<lparr>dmatrix := Some [[0]]\<rparr>)"
  using assms
  by (simp add: ParseEdgeWeights_def ew_formats_def buildUpperRow_def clear_diagonal_def
      SquareMatrix_Get_def Matrix_Get_def assign_def)

theorem ParseEdgeWeights_UPPER_ROW_dimension_1_witness:
  "GetEntryValue_int upper_row_parser ''DIMENSION'' = Some 1
   \<and> GetEntryValue_string upper_row_parser ''EDGE_WEIGHT_FORMAT'' = Some ''UPPER_ROW''
   \<and> ParseEdgeWeights zero_allocation upper_row_parser Instance_init
       = Inr (upper_row_parser, Instance_init\<lparr>dmatrix := Some [[0]]\<rparr>)"
proof -
  have d: "GetEntryValue_int upper_row_parser ''DIMENSION'' = Some 1"
    by (simp add: GetEntryValue_int_def upper_row_parser_def)
  have f: "GetEntryValue_string upper_row_parser ''EDGE_WEIGHT_FORMAT'' = Some ''UPPER_ROW''"
    by (simp add: GetEntryValue_string_def upper_row_parser_def)
  from ParseEdgeWeights_UPPER_ROW_dimension_1 [OF d f] d f
  show ?thesis by simp
qed

end
